(* ===== verification/Goet_Prelude.thy ===== *)
theory Goet_Prelude
  imports Main "HOL-Library.Word" "HOL-Library.Signed_Division" "HOL-Library.Monad_Syntax"
begin

text \<open>
  Shared vocabulary of the goet development: machine integers and byte strings as the Go
  code has them, the errors of the \<^verbatim>\<open>io\<close> package, checked indexing into slices, big-endian
  integer coding (\<^verbatim>\<open>encoding/binary\<close>), and the generic list and word lemmas and theorem
  collections that the component theories build on.
\<close>

unbundle bit_operations_syntax

section \<open>Machine types\<close>

type_synonym byte = "8 word"
type_synonym u16 = "16 word"
type_synonym u32 = "32 word"
type_synonym u64 = "64 word"
type_synonym bytes = "byte list"

text \<open>Errors a reader or a writer of the \<^verbatim>\<open>io\<close> package hands back to its caller.\<close>

datatype io_error = EOF | ErrUnexpectedEOF | ErrClosed | ErrDeadline

named_theorems word_conv \<open>moving facts between words and naturals\<close>
named_theorems frame_simps \<open>evaluation of the wire format\<close>
named_theorems inv_intros \<open>operations keep their component's invariant\<close>

section \<open>Slices\<close>

text \<open>
  Go panics when a slice is indexed out of range. \<open>slice_get\<close> and \<open>slice_set\<close> make the
  panic the value \<open>None\<close>, and so does \<open>slice_range\<close> for \<^verbatim>\<open>xs[lo:hi]\<close>; \<open>go_rem\<close> is Go's remainder, which truncates towards zero.
\<close>

definition slice_get :: "'a list \<Rightarrow> int \<Rightarrow> 'a option" where
  "slice_get xs i = (if 0 \<le> i \<and> i < int (length xs) then Some (xs ! nat i) else None)"

definition slice_set :: "'a list \<Rightarrow> int \<Rightarrow> 'a \<Rightarrow> 'a list option" where
  "slice_set xs i x = (if 0 \<le> i \<and> i < int (length xs) then Some (xs[nat i := x]) else None)"

definition go_rem :: "int \<Rightarrow> int \<Rightarrow> int" where
  "go_rem a b = a smod b"

definition slice_range :: "'a list \<Rightarrow> nat \<Rightarrow> nat \<Rightarrow> 'a list option" where
  "slice_range xs lo hi = (if lo \<le> hi \<and> hi \<le> length xs then Some (take (hi - lo) (drop lo xs)) else None)"

lemma slice_get_in [simp]: "0 \<le> i \<Longrightarrow> i < int (length xs) \<Longrightarrow> slice_get xs i = Some (xs ! nat i)"
  by (simp add: slice_get_def)

lemma slice_set_in [simp]: "0 \<le> i \<Longrightarrow> i < int (length xs) \<Longrightarrow> slice_set xs i x = Some (xs[nat i := x])"
  by (simp add: slice_set_def)

lemma go_rem_nonneg [simp]: "0 \<le> a \<Longrightarrow> 0 < b \<Longrightarrow> go_rem a b = a mod b"
  by (cases "a = 0") (simp_all add: go_rem_def signed_modulo_int_def)

section \<open>Big-endian integers\<close>

text \<open>
  \<open>put_be n w\<close> is what \<^verbatim>\<open>binary.BigEndian.PutUint16/32/64\<close> stores in \<open>n\<close> bytes, most
  significant byte first; \<open>get_be\<close> reads them back as \<^verbatim>\<open>Uint16/32/64\<close> do.
\<close>

primrec put_be :: "nat \<Rightarrow> 'a::len word \<Rightarrow> bytes" where
  "put_be 0 w = []"
| "put_be (Suc n) w = ucast (drop_bit (8 * n) w) # put_be n w"

definition get_be :: "bytes \<Rightarrow> 'a::len word" where
  "get_be bs = foldl (\<lambda>acc b. push_bit 8 acc OR ucast b) 0 bs"

lemma length_put_be [simp]: "length (put_be n w) = n"
  by (induction n) auto

lemma put_be_numeral:
  "put_be (numeral k) w = ucast (drop_bit (8 * pred_numeral k) w) # put_be (pred_numeral k) w"
  by (simp add: numeral_eq_Suc)

lemma foldl_put_be:
  "foldl (\<lambda>acc b. push_bit 8 acc OR ucast b) acc (put_be n w) =
     push_bit (8 * n) acc OR take_bit (8 * n) (w :: 'a::len word)"
proof (induction n arbitrary: acc)
  case 0
  show ?case by simp
next
  case (Suc n)
  have "push_bit (8 * n) (push_bit 8 acc OR ucast (ucast (drop_bit (8 * n) w) :: byte))
          OR take_bit (8 * n) w = push_bit (8 * Suc n) acc OR take_bit (8 * Suc n) w"
    by (rule bit_word_eqI) (auto simp: bit_simps ac_simps)
  with Suc show ?case by simp
qed

lemma get_put_be: "get_be (put_be n w) = take_bit (8 * n) (w :: 'a::len word)"
  by (simp add: get_be_def foldl_put_be)

lemma get_put_be_id [simp]: "LENGTH('a) \<le> 8 * n \<Longrightarrow> get_be (put_be n w) = (w :: 'a::len word)"
  by (simp add: get_put_be take_bit_word_eq_self)

section \<open>Go strings\<close>

text \<open>A Go string is a sequence of bytes; the model writes it as a \<^typ>\<open>string\<close>, one character per byte.\<close>

definition bytes_of_string :: "string \<Rightarrow> bytes" where
  "bytes_of_string s = map (\<lambda>c. of_nat (of_char c)) s"

definition string_of_bytes :: "bytes \<Rightarrow> string" where
  "string_of_bytes bs = map (\<lambda>b. char_of (unat b)) bs"

lemma length_bytes_of_string [simp]: "length (bytes_of_string s) = length s"
  by (simp add: bytes_of_string_def)

lemma length_string_of_bytes [simp]: "length (string_of_bytes bs) = length bs"
  by (simp add: string_of_bytes_def)

lemma of_char_less_256: "of_char c < (256 :: nat)"
  by (metis mod_less_divisor of_char_mod_256 zero_less_numeral)

lemma string_of_bytes_of_string [simp]: "string_of_bytes (bytes_of_string s) = s"
  by (induction s)
     (simp_all add: string_of_bytes_def bytes_of_string_def unat_of_nat of_char_less_256)

lemma bytes_of_string_of_bytes [simp]: "bytes_of_string (string_of_bytes bs) = bs"
proof -
  have "of_nat (of_char (char_of (unat b) :: char)) = b" for b :: byte
    using unsigned_less [of b, where ?'a = nat] by (simp add: of_char_of)
  then show ?thesis by (simp add: string_of_bytes_def bytes_of_string_def map_idI)
qed

section \<open>Rotated lists\<close>

text \<open>A ring of slots read from its oldest slot is a rotation of the slot array.\<close>

lemma mod_offset_inj:
  assumes "i < n" "j < n"
  shows "(t + i) mod n = (t + j) mod n \<longleftrightarrow> i = (j :: nat)"
proof -
  have "rotate t [0..<n] ! i = rotate t [0..<n] ! j \<longleftrightarrow> i = j"
    using assms by (intro nth_eq_iff_index_eq) simp_all
  with assms show ?thesis by (simp add: nth_rotate)
qed

lemma rotate_update:
  assumes "i < length xs"
  shows "rotate t (xs[(t + i) mod length xs := x]) = (rotate t xs)[i := x]"
proof (rule nth_equalityI)
  fix j
  assume "j < length (rotate t (xs[(t + i) mod length xs := x]))"
  then have "j < length xs" by simp
  moreover from this have "(t + j) mod length xs < length xs" by (intro mod_less_divisor) linarith
  ultimately show "rotate t (xs[(t + i) mod length xs := x]) ! j = (rotate t xs)[i := x] ! j"
    using assms by (simp add: nth_rotate nth_list_update mod_offset_inj)
qed simp

end
