(* ===== verification/Catchup.thy ===== *)
theory Catchup
  imports Goet_Prelude
begin

text \<open>
  The catchup buffer of \<^verbatim>\<open>internal/catchup/buffer.go\<close>: a ring of entry slots bounded both by a
  number of slots and by a number of payload bytes. The state is the Go struct, indices and all;
  an index out of range is a panic and makes the operation \<open>None\<close>. The abstract view
  \<open>window\<close> is the list of stored entries, oldest first; the lemmas show that no operation panics,
  that each refines its list counterpart, and that the ring keeps both bounds. The locale
  \<open>replay_log\<close> is what the session and the client rely on when they resend after a reconnect.
\<close>

section \<open>Data\<close>

definition DefaultBufferSize :: int where "DefaultBufferSize = 4 * 1024"

record entry =
  e_seq :: u64
  e_payload :: bytes

record Buffer =
  b_entries :: "entry list"
  b_size :: int
  b_maxSize :: int
  b_head :: int
  b_count :: int
  b_capacity :: int

text \<open>The zero value \<^verbatim>\<open>entry{}\<close>, and the public view of an entry.\<close>

definition zeroEntry :: entry where
  "zeroEntry = \<lparr>e_seq = 0, e_payload = []\<rparr>"

datatype Entry = Entry (EntrySeq: u64) (EntryPayload: bytes)

section \<open>Operations\<close>

definition Buffer_New :: "int \<Rightarrow> Buffer" where
  "Buffer_New maxBytes =
     (let maxBytes = (if maxBytes \<le> 0 then DefaultBufferSize else maxBytes);
          slots = max 256 (min (maxBytes div 1024) (2 ^ 20))
      in \<lparr>b_entries = replicate (nat slots) zeroEntry, b_size = 0, b_maxSize = maxBytes,
          b_head = 0, b_count = 0, b_capacity = slots\<rparr>)"

definition Buffer_tail :: "Buffer \<Rightarrow> int" where
  "Buffer_tail b = go_rem (b_head b - b_count b + b_capacity b) (b_capacity b)"

definition Buffer_newest :: "Buffer \<Rightarrow> int" where
  "Buffer_newest b = go_rem (b_head b - 1 + b_capacity b) (b_capacity b)"

definition Buffer_evictOldest :: "Buffer \<Rightarrow> Buffer option" where
  "Buffer_evictOldest b =
     do { let t = Buffer_tail b;
          e \<leftarrow> slice_get (b_entries b) t;
          es \<leftarrow> slice_set (b_entries b) t zeroEntry;
          Some (b\<lparr>b_size := b_size b - int (length (e_payload e)), b_entries := es,
                  b_count := b_count b - 1\<rparr>) }"

lemma evictOldest_count: "Buffer_evictOldest b = Some b' \<Longrightarrow> b_count b' = b_count b - 1"
  by (auto simp: Buffer_evictOldest_def Let_def split: bind_splits)

text \<open>The eviction loop at the head of \<open>Store\<close>, for a payload of \<open>n\<close> bytes.\<close>

function Buffer_evictFor :: "int \<Rightarrow> Buffer \<Rightarrow> Buffer option" where
  "Buffer_evictFor n b =
     (if b_count b > 0 \<and> b_size b + n > b_maxSize b
      then (case Buffer_evictOldest b of None \<Rightarrow> None | Some b' \<Rightarrow> Buffer_evictFor n b')
      else Some b)"
  by pat_completeness auto
termination
  by (relation "measure (\<lambda>(n, b). nat (b_count b))") (auto dest: evictOldest_count)

declare Buffer_evictFor.simps [simp del]

definition Buffer_Store :: "Buffer \<Rightarrow> u64 \<Rightarrow> bytes \<Rightarrow> Buffer option" where
  "Buffer_Store b q p =
     do { b1 \<leftarrow> Buffer_evictFor (int (length p)) b;
          b2 \<leftarrow> (if b_count b1 \<ge> b_capacity b1 then Buffer_evictOldest b1 else Some b1);
          es \<leftarrow> slice_set (b_entries b2) (b_head b2) \<lparr>e_seq = q, e_payload = p\<rparr>;
          Some (b2\<lparr>b_entries := es, b_head := go_rem (b_head b2 + 1) (b_capacity b2),
                   b_count := b_count b2 + 1, b_size := b_size b2 + int (length p)\<rparr>) }"

text \<open>The loop of \<open>ReplaySince\<close>: \<open>n\<close> iterations are left, the next index is \<open>i\<close>.\<close>

primrec Buffer_replayLoop :: "Buffer \<Rightarrow> int \<Rightarrow> u64 \<Rightarrow> nat \<Rightarrow> int \<Rightarrow> Entry list \<Rightarrow> Entry list option" where
  "Buffer_replayLoop b t afterSeq 0 i result = Some result"
| "Buffer_replayLoop b t afterSeq (Suc n) i result =
     do { e \<leftarrow> slice_get (b_entries b) (go_rem (t + i) (b_capacity b));
          Buffer_replayLoop b t afterSeq n (i + 1)
            (if e_seq e > afterSeq then result @ [Entry (e_seq e) (e_payload e)] else result) }"

definition Buffer_ReplaySince :: "Buffer \<Rightarrow> u64 \<Rightarrow> Entry list option" where
  "Buffer_ReplaySince b afterSeq =
     (if b_count b = 0 then Some []
      else Buffer_replayLoop b (Buffer_tail b) afterSeq (nat (b_count b)) 0 [])"

definition Buffer_OldestSeq :: "Buffer \<Rightarrow> u64 option" where
  "Buffer_OldestSeq b =
     (if b_count b = 0 then Some 0
      else map_option e_seq (slice_get (b_entries b) (Buffer_tail b)))"

definition Buffer_NewestSeq :: "Buffer \<Rightarrow> u64 option" where
  "Buffer_NewestSeq b =
     (if b_count b = 0 then Some 0
      else map_option e_seq (slice_get (b_entries b) (Buffer_newest b)))"

section \<open>Abstract view and invariant\<close>

definition ring :: "Buffer \<Rightarrow> entry list" where
  "ring b = rotate (nat (Buffer_tail b)) (b_entries b)"

definition window :: "Buffer \<Rightarrow> entry list" where
  "window b = take (nat (b_count b)) (ring b)"

definition toEntry :: "entry \<Rightarrow> Entry" where
  "toEntry e = Entry (e_seq e) (e_payload e)"

definition blog :: "Buffer \<Rightarrow> Entry list" where
  "blog b = map toEntry (window b)"

definition payloadBytes :: "entry list \<Rightarrow> int" where
  "payloadBytes es = sum_list (map (\<lambda>e. int (length (e_payload e))) es)"

definition buffer_inv :: "Buffer \<Rightarrow> bool" where
  "buffer_inv b \<longleftrightarrow>
     0 < b_capacity b \<and> int (length (b_entries b)) = b_capacity b
     \<and> 0 \<le> b_head b \<and> b_head b < b_capacity b
     \<and> 0 \<le> b_count b \<and> b_count b \<le> b_capacity b
     \<and> drop (nat (b_count b)) (ring b) = replicate (nat (b_capacity b - b_count b)) zeroEntry
     \<and> b_size b = payloadBytes (window b)"

text \<open>The list counterparts: evict from the front until the new payload fits, then append.\<close>

fun log_evict :: "int \<Rightarrow> int \<Rightarrow> entry list \<Rightarrow> entry list" where
  "log_evict mx n [] = []"
| "log_evict mx n (e # es) = (if payloadBytes (e # es) + n > mx then log_evict mx n es else e # es)"

definition log_store :: "int \<Rightarrow> int \<Rightarrow> entry list \<Rightarrow> entry \<Rightarrow> entry list" where
  "log_store mx cap es e =
     (let kept = log_evict mx (int (length (e_payload e))) es
      in (if int (length kept) \<ge> cap then tl kept else kept) @ [e])"

section \<open>Every operation refines its list counterpart\<close>

lemma payloadBytes_simps [simp]:
  "payloadBytes [] = 0"
  "payloadBytes (e # es) = int (length (e_payload e)) + payloadBytes es"
  "payloadBytes (es @ fs) = payloadBytes es + payloadBytes fs"
  by (simp_all add: payloadBytes_def)

lemma payloadBytes_nonneg [simp]: "0 \<le> payloadBytes es"
  by (induction es) simp_all

lemma length_ring [simp]: "length (ring b) = length (b_entries b)"
  by (simp add: ring_def)

lemma length_window [simp]: "buffer_inv b \<Longrightarrow> length (window b) = nat (b_count b)"
  by (auto simp: window_def buffer_inv_def)

lemma ring_split: "buffer_inv b \<Longrightarrow>
    ring b = window b @ replicate (nat (b_capacity b - b_count b)) zeroEntry"
  by (metis append_take_drop_id buffer_inv_def window_def)

text \<open>The indices as naturals: \<open>n\<close> slots, write position \<open>h\<close>, \<open>c\<close> entries, oldest slot \<open>t\<close>.\<close>

lemma buffer_indices:
  assumes "buffer_inv b"
  obtains n h c t where "b_capacity b = int n" "0 < n" "length (b_entries b) = n"
    "b_head b = int h" "h < n" "b_count b = int c" "c \<le> n"
    "Buffer_tail b = int t" "t < n" "h = (t + c) mod n"
proof -
  define n h c where "n = nat (b_capacity b)" and "h = nat (b_head b)" and "c = nat (b_count b)"
  define t where "t = (h + (n - c)) mod n"
  have n: "b_capacity b = int n" "0 < n" "length (b_entries b) = n" "b_head b = int h" "h < n"
    "b_count b = int c" "c \<le> n"
    using assms by (auto simp: buffer_inv_def n_def h_def c_def)
  have "Buffer_tail b = (int h - int c + int n) mod int n"
    using n by (simp add: Buffer_tail_def)
  also have "int h - int c + int n = int (h + (n - c))"
    using n by simp
  finally have "Buffer_tail b = int t"
    unfolding t_def by (simp only: zmod_int)
  moreover have "t < n" using n by (simp add: t_def)
  moreover have "h = (t + c) mod n"
  proof -
    have "(t + c) mod n = (h + (n - c) + c) mod n" by (simp add: t_def mod_add_left_eq)
    also have "h + (n - c) + c = h + n" using n by simp
    finally show ?thesis using n by simp
  qed
  ultimately show ?thesis using n that by blast
qed

lemma buffer_invI:
  assumes "b_capacity b = int n" "length (b_entries b) = n" "b_count b = int c" "c \<le> n" "t < n"
    and "b_head b = int ((t + c) mod n)"
    and "rotate t (b_entries b) = w @ replicate (n - c) zeroEntry" "length w = c"
    and "b_size b = payloadBytes w"
  shows "buffer_inv b" "window b = w"
proof -
  have "Buffer_tail b = (int ((t + c) mod n) - int c + int n) mod int n"
    using assms by (simp add: Buffer_tail_def)
  also have "\<dots> = int (t mod n)"
    by (simp add: zmod_int mod_simps)
  finally have "Buffer_tail b = int t" using assms by simp
  then have ring: "ring b = w @ replicate (n - c) zeroEntry"
    using assms by (simp add: ring_def)
  then show "window b = w" using assms by (simp add: window_def)
  with ring assms show "buffer_inv b" by (auto simp: buffer_inv_def)
qed

lemma evictOldest_refines:
  assumes "buffer_inv b" and "window b = e # es"
  obtains b' where "Buffer_evictOldest b = Some b'" "buffer_inv b'" "window b' = es"
    "b_maxSize b' = b_maxSize b" "b_capacity b' = b_capacity b"
proof -
  obtain n h c t where ix: "b_capacity b = int n" "0 < n" "length (b_entries b) = n"
      "b_head b = int h" "h < n" "b_count b = int c" "c \<le> n" "Buffer_tail b = int t" "t < n"
      "h = (t + c) mod n"
    using assms(1) by (rule buffer_indices)
  have len: "c = Suc (length es)" using length_window [OF assms(1)] assms(2) ix by simp
  have split: "rotate t (b_entries b) = (e # es) @ replicate (n - c) zeroEntry"
    using ring_split [OF assms(1)] assms(2) ix by (simp add: ring_def nat_diff_distrib)
  have hd: "b_entries b ! t = e"
    using nth_rotate [of 0 "b_entries b" t] split ix by simp
  define b' where "b' = b\<lparr>b_size := b_size b - int (length (e_payload e)),
    b_entries := (b_entries b)[t := zeroEntry], b_count := b_count b - 1\<rparr>"
  have ev: "Buffer_evictOldest b = Some b'"
    using ix hd by (simp add: Buffer_evictOldest_def b'_def Let_def)
  have rot: "rotate t ((b_entries b)[t := zeroEntry]) = (rotate t (b_entries b))[0 := zeroEntry]"
    using rotate_update [of 0 "b_entries b" t zeroEntry] ix by simp
  have "rotate (Suc t) (b_entries b') = es @ replicate (n - (c - 1)) zeroEntry"
    using ix len by (simp add: b'_def rot split replicate_append_same Suc_diff_Suc flip: replicate_Suc)
  then have rot': "rotate (Suc t mod n) (b_entries b') = es @ replicate (n - (c - 1)) zeroEntry"
    using ix rotate_conv_mod [of "Suc t" "b_entries b'"] by (simp add: b'_def)
  have head': "b_head b' = int ((Suc t mod n + (c - 1)) mod n)"
    using ix len by (simp add: b'_def mod_simps)
  have size': "b_size b' = payloadBytes es"
    using assms by (simp add: b'_def buffer_inv_def)
  have "buffer_inv b'" "window b' = es"
    using ix len by (intro buffer_invI [OF _ _ _ _ _ head' rot' _ size']; simp add: b'_def)+
  then show ?thesis using ev that by (simp add: b'_def)
qed

lemma count_nonneg: "buffer_inv b \<Longrightarrow> 0 \<le> b_count b"
  by (simp add: buffer_inv_def)

lemma window_empty_iff: "buffer_inv b \<Longrightarrow> window b = [] \<longleftrightarrow> b_count b = 0"
  by (metis count_nonneg length_0_conv length_window nat_0_iff order_antisym order_refl)

lemma evictFor_refines:
  assumes "buffer_inv b"
  shows "\<exists>b'. Buffer_evictFor n b = Some b' \<and> buffer_inv b' \<and> window b' = log_evict (b_maxSize b) n (window b)
    \<and> b_maxSize b' = b_maxSize b \<and> b_capacity b' = b_capacity b"
  using assms
proof (induction "window b" arbitrary: b)
  case Nil
  then have "b_count b = 0" using window_empty_iff [of b] by simp
  then have "Buffer_evictFor n b = Some b" by (simp add: Buffer_evictFor.simps)
  with Nil.prems show ?case by (simp add: Nil.hyps [symmetric])
next
  case (Cons e es)
  then obtain b1 where b1: "Buffer_evictOldest b = Some b1" "buffer_inv b1" "window b1 = es"
      "b_maxSize b1 = b_maxSize b" "b_capacity b1 = b_capacity b"
    by (metis evictOldest_refines)
  have cnt: "b_count b > 0" and sz: "b_size b = payloadBytes (window b)"
    using Cons.prems Cons.hyps(2) window_empty_iff [of b] count_nonneg [of b]
    by (auto simp: buffer_inv_def order_less_le)
  show ?case
  proof (cases "b_size b + n > b_maxSize b")
    case True
    then have "Buffer_evictFor n b = Buffer_evictFor n b1"
      using cnt b1 by (simp add: Buffer_evictFor.simps [of n b])
    moreover have "log_evict (b_maxSize b) n (window b) = log_evict (b_maxSize b) n (window b1)"
      using True sz b1 by (simp flip: Cons.hyps(2))
    ultimately show ?thesis using Cons.hyps(1) [of b1] b1 by simp
  next
    case False
    then show ?thesis
      using Cons.prems sz by (simp add: Buffer_evictFor.simps [of n b] flip: Cons.hyps(2))
  qed
qed

lemma append_refines:
  assumes "buffer_inv b" and "b_count b < b_capacity b"
    and "b' = b\<lparr>b_entries := (b_entries b)[nat (b_head b) := e], b_head := go_rem (b_head b + 1) (b_capacity b),
               b_count := b_count b + 1, b_size := b_size b + int (length (e_payload e))\<rparr>"
  shows "buffer_inv b'" "window b' = window b @ [e]"
proof -
  obtain n h c t where ix: "b_capacity b = int n" "0 < n" "length (b_entries b) = n"
      "b_head b = int h" "h < n" "b_count b = int c" "c \<le> n" "Buffer_tail b = int t" "t < n"
      "h = (t + c) mod n"
    using assms(1) by (rule buffer_indices)
  have c: "c < n" using assms(2) ix by simp
  have len: "length (window b) = c" using assms(1) ix by simp
  have "rotate t (b_entries b) = window b @ replicate (n - c) zeroEntry"
    using ring_split [OF assms(1)] ix by (simp add: ring_def nat_diff_distrib)
  moreover have "replicate (n - c) zeroEntry = zeroEntry # replicate (n - Suc c) zeroEntry"
    using c by (metis Suc_diff_Suc replicate_Suc)
  ultimately have rot': "rotate t (b_entries b') = (window b @ [e]) @ replicate (n - Suc c) zeroEntry"
    using rotate_update [of c "b_entries b" t e] c ix len by (simp add: assms(3) list_update_append)
  have "b_head b' = (int h + 1) mod int n" using ix by (simp add: assms(3))
  also have "\<dots> = int ((t + Suc c) mod n)"
    using ix by (simp add: zmod_int mod_simps ac_simps)
  finally have head': "b_head b' = int ((t + Suc c) mod n)" .
  have size': "b_size b' = payloadBytes (window b @ [e])"
    using assms by (simp add: buffer_inv_def)
  show "buffer_inv b'" "window b' = window b @ [e]"
    using ix c len by (intro buffer_invI [OF _ _ _ _ _ head' rot' _ size']; simp add: assms(3))+
qed

lemma Store_refines:
  assumes "buffer_inv b"
  obtains b' where "Buffer_Store b q p = Some b'" "buffer_inv b'"
    "window b' = log_store (b_maxSize b) (b_capacity b) (window b) \<lparr>e_seq = q, e_payload = p\<rparr>"
    "b_maxSize b' = b_maxSize b" "b_capacity b' = b_capacity b"
proof -
  let ?e = "\<lparr>e_seq = q, e_payload = p\<rparr>" and ?kept = "log_evict (b_maxSize b) (int (length p)) (window b)"
  obtain b1 where b1: "Buffer_evictFor (int (length p)) b = Some b1" "buffer_inv b1" "window b1 = ?kept"
      "b_maxSize b1 = b_maxSize b" "b_capacity b1 = b_capacity b"
    using evictFor_refines [OF assms, of "int (length p)"] by auto
  have cnt1: "b_count b1 = int (length ?kept)"
    using length_window [OF b1(2)] b1 by (simp add: buffer_inv_def)
  obtain b2 where b2: "(if b_count b1 \<ge> b_capacity b1 then Buffer_evictOldest b1 else Some b1) = Some b2"
      "buffer_inv b2" "window b2 = (if int (length ?kept) \<ge> b_capacity b then tl ?kept else ?kept)"
      "b_maxSize b2 = b_maxSize b" "b_capacity b2 = b_capacity b"
  proof (cases "b_count b1 \<ge> b_capacity b1")
    case True
    with b1 have "window b1 \<noteq> []" using window_empty_iff [OF b1(2)] by (auto simp: buffer_inv_def)
    then obtain e es where "window b1 = e # es" by (cases "window b1") auto
    from evictOldest_refines [OF b1(2) this] obtain b2 where "Buffer_evictOldest b1 = Some b2"
        "buffer_inv b2" "window b2 = es" "b_maxSize b2 = b_maxSize b1" "b_capacity b2 = b_capacity b1" .
    moreover have "?kept = e # es" using b1 \<open>window b1 = e # es\<close> by simp
    ultimately show ?thesis using True b1 cnt1 by (intro that [of b2]) simp_all
  next
    case False
    with b1 cnt1 show ?thesis by (intro that [of b1]) auto
  qed
  have room: "b_count b2 < b_capacity b2"
    using length_window [OF b2(2)] b2 cnt1 b1(2,5) by (auto simp: buffer_inv_def split: if_splits)
  define b3 where "b3 = b2\<lparr>b_entries := (b_entries b2)[nat (b_head b2) := ?e],
      b_head := go_rem (b_head b2 + 1) (b_capacity b2), b_count := b_count b2 + 1,
      b_size := b_size b2 + int (length (e_payload ?e))\<rparr>"
  have "Buffer_Store b q p = Some b3"
    using b1 b2 by (auto simp: Buffer_Store_def buffer_inv_def b3_def)
  with append_refines [OF b2(2) room b3_def] b2 show ?thesis
    by (intro that [of b3]) (simp_all add: log_store_def Let_def b3_def)
qed

lemma ring_nth:
  assumes "buffer_inv b" and "i < nat (b_count b)"
  shows "slice_get (b_entries b) (go_rem (Buffer_tail b + int i) (b_capacity b)) = Some (window b ! i)"
proof -
  obtain n h c t where ix: "b_capacity b = int n" "0 < n" "length (b_entries b) = n"
      "b_count b = int c" "c \<le> n" "Buffer_tail b = int t" "t < n"
    using assms(1) by (rule buffer_indices)
  have "go_rem (int t + int i) (int n) = int ((t + i) mod n)"
    using ix by (simp add: zmod_int)
  then show ?thesis
    using ix assms(2) by (simp add: window_def ring_def nth_rotate)
qed

lemma replayLoop_eq:
  assumes "buffer_inv b"
  shows "i + n \<le> nat (b_count b) \<Longrightarrow> Buffer_replayLoop b (Buffer_tail b) a n (int i) acc =
    Some (acc @ map toEntry (filter (\<lambda>e. e_seq e > a) (take n (drop i (window b)))))"
proof (induction n arbitrary: i acc)
  case 0
  show ?case by simp
next
  case (Suc n)
  then have "take (Suc n) (drop i (window b)) = window b ! i # take n (drop (Suc i) (window b))"
    using assms by (simp add: Cons_nth_drop_Suc [symmetric])
  with Suc.prems Suc.IH [of "Suc i"] ring_nth [OF assms, of i] show ?case
    by (simp add: ac_simps toEntry_def)
qed

lemma ReplaySince_eq:
  assumes "buffer_inv b"
  shows "Buffer_ReplaySince b a =
    Some (map toEntry (filter (\<lambda>e. e_seq e > a) (window b)))"
  using replayLoop_eq [OF assms, of 0 "nat (b_count b)" a "[]"] assms
  by (auto simp: Buffer_ReplaySince_def window_empty_iff [symmetric])

lemma New_window:
  shows "buffer_inv (Buffer_New mx)" and "window (Buffer_New mx) = []"
  by (simp_all add: Buffer_New_def buffer_inv_def window_def ring_def Let_def Buffer_tail_def max_def)

section \<open>What eviction keeps\<close>

lemma log_evict_drop: "\<exists>k. log_evict mx n es = drop k es"
proof (induction es)
  case (Cons e es)
  then obtain k where "log_evict mx n es = drop k es" by auto
  then show ?case by (auto intro: exI [of _ "Suc k"] exI [of _ 0])
qed simp

lemma log_evict_fits: "log_evict mx n es \<noteq> [] \<Longrightarrow> payloadBytes (log_evict mx n es) + n \<le> mx"
  by (induction es) (auto split: if_splits)

lemma log_evict_keeps: "payloadBytes ys + n \<le> mx \<Longrightarrow> \<exists>zs. log_evict mx n (xs @ ys) = zs @ ys"
proof (induction xs)
  case Nil
  then show ?case by (cases ys) (auto intro: exI [of _ "[]"])
qed auto

lemma log_store_drop: "\<exists>k. log_store mx cap es e = drop k es @ [e]"
proof -
  obtain k where "log_evict mx (int (length (e_payload e))) es = drop k es"
    using log_evict_drop by blast
  then show ?thesis
    by (cases "int (length (drop k es)) \<ge> cap")
       (auto simp: log_store_def Let_def tl_drop drop_Suc [symmetric] intro: exI [of _ "Suc k"] exI [of _ k])
qed

lemma log_store_keeps:
  assumes "payloadBytes ys + int (length (e_payload e)) \<le> mx" and "int (length ys) < cap"
  shows "\<exists>zs. log_store mx cap (xs @ ys) e = zs @ ys @ [e]"
proof -
  obtain zs where zs: "log_evict mx (int (length (e_payload e))) (xs @ ys) = zs @ ys"
    using log_evict_keeps [OF assms(1)] by blast
  have "log_store mx cap (xs @ ys) e = (if int (length (zs @ ys)) \<ge> cap then tl zs else zs) @ ys @ [e]"
    using assms(2) by (cases zs) (simp_all add: log_store_def zs Let_def)
  then show ?thesis by blast
qed

lemma log_store_bounds:
  assumes "0 < cap" and "int (length es) \<le> cap"
  shows "int (length (log_store mx cap es e)) \<le> cap"
    and "payloadBytes (log_store mx cap es e) \<le> mx \<or> length (log_store mx cap es e) = 1"
proof -
  let ?kept = "log_evict mx (int (length (e_payload e))) es"
  have len: "length ?kept \<le> length es" using log_evict_drop [of mx _ es] by (metis length_drop diff_le_self)
  then show "int (length (log_store mx cap es e)) \<le> cap"
    using assms by (auto simp: log_store_def Let_def)
  have "payloadBytes (tl ?kept) \<le> payloadBytes ?kept" by (cases ?kept) simp_all
  then show "payloadBytes (log_store mx cap es e) \<le> mx \<or> length (log_store mx cap es e) = 1"
    using log_evict_fits [of mx "int (length (e_payload e))" es]
    by (cases "?kept = []") (auto simp: log_store_def Let_def)
qed

section \<open>Interface: a log that is replayed after a reconnect\<close>

text \<open>
  The session and the client store each outgoing payload under consecutive sequence numbers and,
  after a reconnect, resend what lies beyond the peer's last number. What they rely on: a store
  never panics, drops entries from the oldest end only and appends the new one; a replay filters by
  sequence number. A bounded log also keeps every recent stretch that fits its limits.
\<close>

definition entryBytes :: "Entry list \<Rightarrow> int" where
  "entryBytes es = sum_list (map (\<lambda>e. int (length (EntryPayload e))) es)"

primrec storeAll :: "('b \<Rightarrow> u64 \<Rightarrow> bytes \<Rightarrow> 'b option) \<Rightarrow> 'b \<Rightarrow> Entry list \<Rightarrow> 'b option" where
  "storeAll store b [] = Some b"
| "storeAll store b (e # es) =
     (case store b (EntrySeq e) (EntryPayload e) of None \<Rightarrow> None | Some b' \<Rightarrow> storeAll store b' es)"

lemma storeAll_snoc:
  "storeAll store b (es @ [e]) =
     (case storeAll store b es of None \<Rightarrow> None | Some b' \<Rightarrow> store b' (EntrySeq e) (EntryPayload e))"
  by (induction es arbitrary: b) (auto split: option.splits)

text \<open>The history of a sender: its payloads under the sequence numbers 1, 2, and so on.\<close>

definition numbered :: "bytes list \<Rightarrow> Entry list" where
  "numbered ps = map (\<lambda>i. Entry (of_nat (Suc i)) (ps ! i)) [0..<length ps]"

lemma length_numbered [simp]: "length (numbered ps) = length ps"
  by (simp add: numbered_def)

lemma numbered_Nil [simp]: "numbered [] = []"
  by (simp add: numbered_def)

lemma numbered_nth [simp]: "i < length ps \<Longrightarrow> numbered ps ! i = Entry (of_nat (Suc i)) (ps ! i)"
  by (simp add: numbered_def)

lemma numbered_snoc: "numbered (ps @ [p]) = numbered ps @ [Entry (of_nat (Suc (length ps))) p]"
  by (simp add: numbered_def nth_append)

lemma filter_ge_upt: "filter (\<lambda>i. a \<le> i) [k..<n] = [max k a..<n :: nat]"
  by (induction n) (auto simp: max_def)

lemma replay_of_suffix:
  assumes "length ps < 2 ^ 64"
  shows "filter (\<lambda>e. EntrySeq e > a) (drop k (numbered ps)) = drop (max k (unat a)) (numbered ps)"
proof -
  let ?f = "\<lambda>i. Entry (of_nat (Suc i)) (ps ! i)"
  have big: "a < (of_nat (Suc i) :: u64) \<longleftrightarrow> unat a \<le> i" if "i < length ps" for i
  proof -
    have "unat (of_nat (Suc i) :: u64) = Suc i"
      using assms that by (simp add: unat_of_nat del: of_nat_Suc)
    then show ?thesis by (simp only: word_less_nat_alt) linarith
  qed
  have "filter (\<lambda>e. EntrySeq e > a) (drop k (numbered ps)) = map ?f (filter (\<lambda>i. a < of_nat (Suc i)) [k..<length ps])"
    by (simp add: numbered_def drop_map filter_map comp_def)
  also have "filter (\<lambda>i. a < (of_nat (Suc i) :: u64)) [k..<length ps] = filter (\<lambda>i. unat a \<le> i) [k..<length ps]"
    using big by (intro filter_cong) auto
  also have "map ?f \<dots> = drop (max k (unat a)) (numbered ps)"
    by (simp add: filter_ge_upt numbered_def drop_map)
  finally show ?thesis .
qed

locale replay_log =
  fixes store :: "'b \<Rightarrow> u64 \<Rightarrow> bytes \<Rightarrow> 'b option"
    and replay :: "'b \<Rightarrow> u64 \<Rightarrow> Entry list option"
    and log :: "'b \<Rightarrow> Entry list"
    and inv :: "'b \<Rightarrow> bool"
  assumes store_drops_oldest: "inv b \<Longrightarrow>
      \<exists>b' k. store b q p = Some b' \<and> inv b' \<and> log b' = drop k (log b) @ [Entry q p]"
    and replay_filters: "inv b \<Longrightarrow> replay b a = Some (filter (\<lambda>e. EntrySeq e > a) (log b))"
begin

lemma storeAll_suffix:
  "inv b \<Longrightarrow> \<exists>b' k. storeAll store b es = Some b' \<and> inv b' \<and> log b' = drop k (log b @ es)"
proof (induction es arbitrary: b)
  case Nil
  then show ?case by (auto intro: exI [of _ 0])
next
  case (Cons e es)
  obtain b1 k1 where b1: "store b (EntrySeq e) (EntryPayload e) = Some b1" "inv b1"
      "log b1 = drop k1 (log b) @ [e]"
    using store_drops_oldest [OF Cons.prems, of "EntrySeq e" "EntryPayload e"] by auto
  obtain b' k2 where "storeAll store b1 es = Some b'" "inv b'" "log b' = drop k2 (log b1 @ es)"
    using Cons.IH [OF b1(2)] by auto
  moreover have "log b1 @ es = drop (min k1 (length (log b))) (log b @ e # es)"
    by (simp add: b1(3) min_def)
  ultimately show ?case using b1(1) by (auto intro: exI [of _ "k2 + min k1 (length (log b))"])
qed

text \<open>The next payload of a history goes into a log that holds the end of the history so far.\<close>

lemma store_history:
  assumes "inv b" and "log b = drop k (numbered ps)"
  shows "\<exists>b' k'. store b (of_nat (Suc (length ps))) p = Some b' \<and> inv b' \<and> log b' = drop k' (numbered (ps @ [p]))"
proof -
  obtain b' j where b': "store b (of_nat (Suc (length ps))) p = Some b'" "inv b'"
      "log b' = drop j (log b) @ [Entry (of_nat (Suc (length ps))) p]"
    using store_drops_oldest [OF assms(1)] by blast
  then have "log b' = drop (min (j + k) (length ps)) (numbered (ps @ [p]))"
    by (simp add: assms(2) numbered_snoc min_def)
  with b' show ?thesis by blast
qed

lemma replay_history:
  assumes "inv b" and "log b = drop k (numbered ps)" and "length ps < 2 ^ 64"
  shows "replay b a = Some (drop (max k (unat a)) (numbered ps))"
  using assms replay_of_suffix by (simp add: replay_filters)

end

locale bounded_replay_log = replay_log store replay log inv
  for store :: "'b \<Rightarrow> u64 \<Rightarrow> bytes \<Rightarrow> 'b option" and replay log inv +
  fixes maxBytes :: "'b \<Rightarrow> int"
    and slots :: "'b \<Rightarrow> int"
  assumes store_keeps_fitting: "inv b \<Longrightarrow> store b q p = Some b' \<Longrightarrow> log b = xs @ ys \<Longrightarrow>
      entryBytes ys + int (length p) \<le> maxBytes b \<Longrightarrow> int (length ys) < slots b \<Longrightarrow>
      \<exists>zs. log b' = zs @ ys @ [Entry q p]"
    and store_limits: "inv b \<Longrightarrow> store b q p = Some b' \<Longrightarrow> maxBytes b' = maxBytes b \<and> slots b' = slots b"
begin

lemma storeAll_limits:
  "inv b \<Longrightarrow> storeAll store b es = Some b' \<Longrightarrow> inv b' \<and> maxBytes b' = maxBytes b \<and> slots b' = slots b"
proof (induction es arbitrary: b)
  case (Cons e es)
  obtain b1 where b1: "store b (EntrySeq e) (EntryPayload e) = Some b1" "inv b1"
    using store_drops_oldest [OF Cons.prems(1), of "EntrySeq e" "EntryPayload e"] by auto
  then have "storeAll store b1 es = Some b'" using Cons.prems(2) by simp
  with Cons.IH [OF b1(2)] store_limits [OF Cons.prems(1) b1(1)] show ?case by simp
qed simp

lemma storeAll_keeps:
  assumes "inv b" and "storeAll store b es = Some b'" and "log b @ es = xs @ ys" and "length ys \<le> length es"
    and "entryBytes ys \<le> maxBytes b" and "int (length ys) \<le> slots b"
  shows "\<exists>zs. log b' = zs @ ys"
  using assms
proof (induction es arbitrary: b b' xs ys rule: rev_induct)
  case Nil
  then show ?case by simp
next
  case (snoc e es)
  show ?case
  proof (cases ys rule: rev_cases)
    case Nil
    then show ?thesis by simp
  next
    case ys: (snoc ys1 e1)
    have e1: "e1 = e" and pre: "log b @ es = xs @ ys1" using snoc.prems(3) ys by simp_all
    obtain b1 where b1: "storeAll store b es = Some b1" "store b1 (EntrySeq e) (EntryPayload e) = Some b'"
      using snoc.prems(2) by (auto simp: storeAll_snoc split: option.splits)
    have lim: "inv b1" "maxBytes b1 = maxBytes b" "slots b1 = slots b"
      using storeAll_limits [OF snoc.prems(1) b1(1)] by auto
    have sub: "entryBytes ys1 \<le> maxBytes b" "int (length ys1) \<le> slots b"
      using snoc.prems ys by (auto simp: entryBytes_def)
    obtain zs where "log b1 = zs @ ys1"
      using snoc.IH [OF snoc.prems(1) b1(1) pre _ sub] snoc.prems(4) ys by auto
    moreover have "entryBytes ys1 + int (length (EntryPayload e)) \<le> maxBytes b1" "int (length ys1) < slots b1"
      using snoc.prems lim ys e1 by (auto simp: entryBytes_def)
    ultimately obtain zs' where "log b' = zs' @ ys1 @ [Entry (EntrySeq e) (EntryPayload e)]"
      using store_keeps_fitting [OF lim(1) b1(2)] by blast
    then show ?thesis using ys e1 by auto
  qed
qed

end

section \<open>The ring implements the interface\<close>

lemma blog_split:
  assumes "blog b = xs @ ys"
  obtains ws vs where "window b = ws @ vs" "map toEntry ws = xs" "map toEntry vs = ys"
  using assms by (auto simp: blog_def map_eq_append_conv)

lemma entryBytes_toEntry [simp]: "entryBytes (map toEntry es) = payloadBytes es"
  by (simp add: entryBytes_def payloadBytes_def toEntry_def comp_def)

interpretation catchup_ring: bounded_replay_log Buffer_Store Buffer_ReplaySince blog buffer_inv b_maxSize b_capacity
proof unfold_locales
  fix b q p
  assume "buffer_inv b"
  then obtain b' where "Buffer_Store b q p = Some b'" "buffer_inv b'"
      "window b' = log_store (b_maxSize b) (b_capacity b) (window b) \<lparr>e_seq = q, e_payload = p\<rparr>"
    by (rule Store_refines)
  moreover obtain k where "log_store (b_maxSize b) (b_capacity b) (window b) \<lparr>e_seq = q, e_payload = p\<rparr> =
      drop k (window b) @ [\<lparr>e_seq = q, e_payload = p\<rparr>]"
    using log_store_drop by blast
  ultimately show "\<exists>b' k. Buffer_Store b q p = Some b' \<and> buffer_inv b' \<and> blog b' = drop k (blog b) @ [Entry q p]"
    by (auto simp: blog_def drop_map toEntry_def intro: exI [of _ k])
next
  fix b a
  assume "buffer_inv b"
  then show "Buffer_ReplaySince b a = Some (filter (\<lambda>e. EntrySeq e > a) (blog b))"
    by (simp add: ReplaySince_eq blog_def filter_map comp_def toEntry_def)
next
  fix b q p b' xs ys
  assume *: "buffer_inv b" "Buffer_Store b q p = Some b'" "blog b = xs @ ys"
    "entryBytes ys + int (length p) \<le> b_maxSize b" "int (length ys) < b_capacity b"
  obtain ws vs where "window b = ws @ vs" "map toEntry ws = xs" "map toEntry vs = ys"
    using *(3) by (rule blog_split)
  moreover have "window b' = log_store (b_maxSize b) (b_capacity b) (window b) \<lparr>e_seq = q, e_payload = p\<rparr>"
    using *(1,2) by (metis Store_refines option.inject)
  ultimately show "\<exists>zs. blog b' = zs @ ys @ [Entry q p]"
    using *(4,5) log_store_keeps [of vs "\<lparr>e_seq = q, e_payload = p\<rparr>" "b_maxSize b" "b_capacity b" ws]
    by (auto simp: blog_def toEntry_def)
next
  fix b q p b'
  assume "buffer_inv b" "Buffer_Store b q p = Some b'"
  then show "b_maxSize b' = b_maxSize b \<and> b_capacity b' = b_capacity b"
    by (metis Store_refines option.inject)
qed

lemma blog_New [simp]: "blog (Buffer_New mx) = []"
  by (simp add: blog_def New_window)

lemma buffer_inv_New [simp]: "buffer_inv (Buffer_New mx)"
  by (rule New_window)

text \<open>What is replayed from the ring of a numbered history.\<close>

lemma history_replay:
  assumes "length ps < 2 ^ 64" and "storeAll Buffer_Store (Buffer_New mx) (numbered ps) = Some b"
  shows "\<exists>k. Buffer_ReplaySince b a = Some (drop (max k (unat a)) (numbered ps))
    \<and> (unat a \<le> length ps \<and> entryBytes (drop (unat a) (numbered ps)) \<le> b_maxSize (Buffer_New mx)
       \<and> int (length ps - unat a) \<le> b_capacity (Buffer_New mx) \<longrightarrow> k \<le> unat a)"
proof -
  let ?H = "numbered ps"
  obtain k where inv: "buffer_inv b" and b: "blog b = drop k ?H"
    using catchup_ring.storeAll_suffix [of "Buffer_New mx" ?H] assms(2) by auto
  have keep: "min k (length ps) \<le> unat a" if "unat a \<le> length ps" "entryBytes (drop (unat a) ?H) \<le> b_maxSize (Buffer_New mx)"
      "int (length ps - unat a) \<le> b_capacity (Buffer_New mx)"
  proof -
    have "\<exists>zs. blog b = zs @ drop (unat a) ?H"
      using that catchup_ring.storeAll_keeps [OF buffer_inv_New assms(2), of "take (unat a) ?H" "drop (unat a) ?H"] by simp
    then obtain zs where zs: "blog b = zs @ drop (unat a) ?H" by blast
    have "length (drop (unat a) ?H) \<le> length (drop k ?H)"
      using arg_cong [OF zs, of length] by (simp add: b)
    with that(1) show ?thesis by auto
  qed
  have "drop (max k (unat a)) ?H = drop (max (min k (length ps)) (unat a)) ?H"
    by (cases "k \<le> length ps") (auto simp: min_def)
  then show ?thesis using catchup_ring.replay_history [OF inv b assms(1), of a] keep by metis
qed

section \<open>Properties\<close>

text \<open>C9: Storing refines the abstract log. In every well-formed ring a store runs without an
  out-of-range index, keeps the ring well-formed and its limits unchanged, and its effect on the list
  of stored entries is: evict from the oldest end until the payload fits (or nothing is left), evict
  one more if all slots are taken, append the new entry.\<close>

theorem Store_refines_log:
  assumes "buffer_inv b"
  shows "\<exists>b'. Buffer_Store b q p = Some b' \<and> buffer_inv b'
    \<and> window b' = log_store (b_maxSize b) (b_capacity b) (window b) \<lparr>e_seq = q, e_payload = p\<rparr>
    \<and> b_maxSize b' = b_maxSize b \<and> b_capacity b' = b_capacity b"
  using Store_refines [OF assms, of q p] by metis

text \<open>A two-slot ring with a four-byte limit, wrapped around once, for the witnesses.\<close>

definition tinyBuffer :: Buffer where
  "tinyBuffer = \<lparr>b_entries = [\<lparr>e_seq = 3, e_payload = [30]\<rparr>, \<lparr>e_seq = 2, e_payload = [20, 21]\<rparr>],
     b_size = 3, b_maxSize = 4, b_head = 1, b_count = 2, b_capacity = 2\<rparr>"

lemma tinyBuffer_inv: "buffer_inv tinyBuffer"
  and tinyBuffer_window: "window tinyBuffer =
    [\<lparr>e_seq = 2, e_payload = [20, 21]\<rparr>, \<lparr>e_seq = 3, e_payload = [30]\<rparr>]"
  by (simp_all add: tinyBuffer_def buffer_inv_def window_def ring_def Buffer_tail_def numeral_2_eq_2)

theorem Store_refines_log_witness:
  "\<exists>b'. Buffer_Store tinyBuffer 4 [40, 41] = Some b'
    \<and> window b' = [\<lparr>e_seq = 3, e_payload = [30]\<rparr>, \<lparr>e_seq = 4, e_payload = [40, 41]\<rparr>]"
  using Store_refines_log [OF tinyBuffer_inv, of 4 "[40, 41]"] tinyBuffer_window
  by (auto simp: log_store_def tinyBuffer_def)

text \<open>\<open>ReplaySince\<close> returns, oldest first, exactly the stored entries whose sequence number
  is above the given one, with their payloads.\<close>

theorem ReplaySince_filters:
  assumes "buffer_inv b"
  shows "Buffer_ReplaySince b a = Some (map toEntry (filter (\<lambda>e. e_seq e > a) (window b)))"
  using assms by (rule ReplaySince_eq)

theorem ReplaySince_filters_witness: "Buffer_ReplaySince tinyBuffer 2 = Some [Entry 3 [30]]"
  using ReplaySince_filters [OF tinyBuffer_inv, of 2] tinyBuffer_window by (simp add: toEntry_def)

text \<open>The two limits as an invariant of every ring reached from \<open>New\<close>.\<close>

definition within_limits :: "Buffer \<Rightarrow> bool" where
  "within_limits b \<longleftrightarrow> b_count b \<le> b_capacity b \<and> (b_size b \<le> b_maxSize b \<or> b_count b = 1)
     \<and> payloadBytes (b_entries b) = b_size b"

lemma payloadBytes_rotate: "payloadBytes (rotate t es) = payloadBytes es"
proof -
  have "payloadBytes (rotate1 xs) = payloadBytes xs" for xs by (cases xs) simp_all
  then show ?thesis by (induction t) simp_all
qed

lemma payloadBytes_zero: "payloadBytes (replicate n zeroEntry) = 0"
  by (induction n) (simp_all add: zeroEntry_def)

lemma slots_hold_window: "buffer_inv b \<Longrightarrow> payloadBytes (b_entries b) = b_size b"
  by (metis add.right_neutral buffer_inv_def payloadBytes_rotate payloadBytes_simps(3)
      payloadBytes_zero ring_def ring_split)

lemma Store_within_limits:
  assumes "buffer_inv b" and "Buffer_Store b q p = Some b'"
  shows "within_limits b'"
proof -
  let ?e = "\<lparr>e_seq = q, e_payload = p\<rparr>"
  have b': "buffer_inv b'" "window b' = log_store (b_maxSize b) (b_capacity b) (window b) ?e"
      "b_maxSize b' = b_maxSize b"
    using assms by (metis Store_refines option.inject)+
  have cap: "0 < b_capacity b" "int (length (window b)) \<le> b_capacity b"
    using assms(1) by (simp_all add: buffer_inv_def)
  have "b_size b' \<le> b_maxSize b' \<or> length (window b') = 1"
    using log_store_bounds(2) [OF cap, of "b_maxSize b" ?e] b' by (simp add: buffer_inv_def)
  moreover have "int (length (window b')) = b_count b'"
    using b'(1) by (simp add: count_nonneg)
  ultimately show ?thesis
    using b'(1) slots_hold_window [OF b'(1)] by (auto simp: within_limits_def buffer_inv_def)
qed

lemma storeAll_within_limits:
  assumes "storeAll Buffer_Store (Buffer_New mx) es = Some b"
  shows "within_limits b"
proof (cases es rule: rev_cases)
  case Nil
  with assms have "b = Buffer_New mx" by simp
  then show ?thesis
    by (simp add: within_limits_def Buffer_New_def Let_def max_def DefaultBufferSize_def
        payloadBytes_def zeroEntry_def sum_list_replicate)
next
  case (snoc es' e)
  with assms obtain b1 where b1: "storeAll Buffer_Store (Buffer_New mx) es' = Some b1"
      "Buffer_Store b1 (EntrySeq e) (EntryPayload e) = Some b"
    by (auto simp: storeAll_snoc split: option.splits)
  then have "buffer_inv b1" using catchup_ring.storeAll_suffix [of "Buffer_New mx" es'] by auto
  with b1(2) show ?thesis by (intro Store_within_limits)
qed

text \<open>C12: Memory stays bounded. Whatever is stored in a fresh buffer, no store panics, the number
  of entries stays within the slots, the payload bytes held by all the slots together are exactly the
  accounted size, and that size exceeds the limit only while a single oversized entry is stored.\<close>

theorem buffer_stays_bounded:
  "\<exists>b. storeAll Buffer_Store (Buffer_New mx) es = Some b \<and> within_limits b"
  using catchup_ring.storeAll_suffix [of "Buffer_New mx" es] storeAll_within_limits by fastforce

text \<open>C11: Replay after a reconnect has no holes and no repetitions. When the payloads of a
  history were stored under the numbers 1, 2, ..., the entries replayed after number \<open>a\<close> are the
  history from some point on, in order, that point being \<open>a\<close> itself unless eviction went further.\<close>

theorem replay_is_suffix:
  assumes "length ps < 2 ^ 64" and "storeAll Buffer_Store (Buffer_New mx) (numbered ps) = Some b"
  shows "\<exists>k. Buffer_ReplaySince b a = Some (drop (max k (unat a)) (numbered ps))"
  using history_replay [OF assms, of a] by blast

theorem replay_is_suffix_witness:
  "\<exists>b k. Buffer_ReplaySince b 1 = Some (drop (max k (unat (1 :: u64))) (numbered [[1], [2], [3]]))"
proof -
  obtain b where "storeAll Buffer_Store (Buffer_New 0) (numbered [[1], [2], [3]]) = Some b"
    using catchup_ring.storeAll_suffix [of "Buffer_New 0" "numbered [[1], [2], [3]]"] by auto
  then show ?thesis using replay_is_suffix [of "[[1], [2], [3]]" 0 b 1] by auto
qed

text \<open>C10: Nothing recent is lost. If the payloads after number \<open>a\<close> fit the byte limit of the
  buffer and their number fits its slots, the replay after \<open>a\<close> is all of them.\<close>

theorem replay_complete:
  assumes "length ps < 2 ^ 64" and "storeAll Buffer_Store (Buffer_New mx) (numbered ps) = Some b"
    and "unat a \<le> length ps"
    and "entryBytes (drop (unat a) (numbered ps)) \<le> b_maxSize (Buffer_New mx)"
    and "int (length ps - unat a) \<le> b_capacity (Buffer_New mx)"
  shows "Buffer_ReplaySince b a = Some (drop (unat a) (numbered ps))"
  using history_replay [OF assms(1,2), of a] assms(3-5) by (auto simp: max_def)

theorem replay_complete_witness:
  "\<exists>b. storeAll Buffer_Store (Buffer_New 0) (numbered [[1], [2], [3]]) = Some b
     \<and> Buffer_ReplaySince b 1 = Some [Entry 2 [2], Entry 3 [3]]"
proof -
  obtain b where b: "storeAll Buffer_Store (Buffer_New 0) (numbered [[1], [2], [3]]) = Some b"
    using catchup_ring.storeAll_suffix [of "Buffer_New 0" "numbered [[1], [2], [3]]"] by auto
  have H: "numbered [[1], [2], [3]] = [Entry 1 [1], Entry 2 [2], Entry 3 [3]]"
    by (simp add: numbered_def upt_rec)
  have "b_maxSize (Buffer_New 0) = 4096" "b_capacity (Buffer_New 0) = 256"
    by (simp_all add: Buffer_New_def DefaultBufferSize_def Let_def)
  then show ?thesis
    using replay_complete [OF _ b, of 1] b by (simp add: H entryBytes_def)
qed

lemma newest_index:
  assumes "buffer_inv b" and "0 < b_count b"
  shows "Buffer_newest b = go_rem (Buffer_tail b + int (nat (b_count b) - 1)) (b_capacity b)"
proof -
  obtain n h c t where ix: "b_capacity b = int n" "0 < n" "b_head b = int h" "h < n" "b_count b = int c"
      "c \<le> n" "Buffer_tail b = int t" "t < n" "h = (t + c) mod n"
    using assms(1) by (rule buffer_indices)
  have "(int h - 1 + int n) mod int n = ((int t + int c) mod int n - 1) mod int n"
    using ix by (simp add: zmod_int flip: diff_add_eq)
  also have "\<dots> = (int t + int (c - 1)) mod int n"
    using assms(2) ix by (simp add: mod_diff_left_eq of_nat_diff algebra_simps)
  finally show ?thesis using ix by (simp add: Buffer_newest_def)
qed

text \<open>\<open>OldestSeq\<close> and \<open>NewestSeq\<close> read the two ends of the stored entries, and give 0 for an
  empty buffer; neither can index out of range.\<close>

theorem oldest_newest_seq:
  assumes "buffer_inv b"
  shows "Buffer_OldestSeq b = Some (if window b = [] then 0 else e_seq (hd (window b)))
    \<and> Buffer_NewestSeq b = Some (if window b = [] then 0 else e_seq (last (window b)))"
proof (cases "window b = []")
  case True
  then show ?thesis
    using assms by (simp add: Buffer_OldestSeq_def Buffer_NewestSeq_def window_empty_iff)
next
  case False
  then have pos: "0 < b_count b" using assms count_nonneg [OF assms] window_empty_iff [OF assms] by linarith
  obtain n t where tail: "b_capacity b = int n" "0 < n" "Buffer_tail b = int t" "t < n"
    using assms by (rule buffer_indices)
  have "slice_get (b_entries b) (Buffer_tail b) = Some (window b ! 0)"
    using ring_nth [OF assms, of 0] pos tail by simp
  moreover have "slice_get (b_entries b) (Buffer_newest b) = Some (window b ! (nat (b_count b) - 1))"
    using ring_nth [OF assms, of "nat (b_count b) - 1"] pos newest_index [OF assms pos] by simp
  ultimately show ?thesis
    using False pos assms
    by (simp add: Buffer_OldestSeq_def Buffer_NewestSeq_def hd_conv_nth last_conv_nth)
qed

theorem oldest_newest_seq_witness:
  "Buffer_OldestSeq tinyBuffer = Some 2 \<and> Buffer_NewestSeq tinyBuffer = Some 3"
  using oldest_newest_seq [OF tinyBuffer_inv] tinyBuffer_window by simp

end
