(* ===== verification/Coalesce.thy ===== *)
theory Coalesce
  imports Goet_Prelude
begin

text \<open>
  The write coalescer of \<^verbatim>\<open>internal/coalesce/coalesce.go\<close>: it accumulates bytes and has them flushed
  when a deadline, counted from the first byte of a batch, expires, when 32 KB are reached, or on
  request. Time is in nanoseconds. A \<^verbatim>\<open>time.Timer\<close> is the instant at which it fires, or \<open>None\<close> once
  stopped or received from; as of Go 1.23 (the module asks for 1.26) a stopped timer delivers no
  stale value and \<^verbatim>\<open>Stop\<close> reports whether it was still running. The lemmas show that no byte is lost
  or reordered, that a waiting byte always has a running deadline which later bytes do not postpone,
  and how large a flushed batch can get.
\<close>

section \<open>Timers\<close>

type_synonym instant = int
type_synonym timer = "instant option"

definition Timer_New :: "instant \<Rightarrow> int \<Rightarrow> timer" where
  "Timer_New now d = Some (now + d)"

definition Timer_Stop :: "timer \<Rightarrow> bool \<times> timer" where
  "Timer_Stop t = (t \<noteq> None, None)"

definition Timer_Reset :: "timer \<Rightarrow> instant \<Rightarrow> int \<Rightarrow> timer" where
  "Timer_Reset t now d = Some (now + d)"

definition Timer_fires :: "timer \<Rightarrow> instant \<Rightarrow> bool" where
  "Timer_fires t now \<longleftrightarrow> (case t of None \<Rightarrow> False | Some d \<Rightarrow> d \<le> now)"

section \<open>The coalescer\<close>

definition Delay :: int where "Delay = 2 * 1000000"
definition Threshold :: nat where "Threshold = 32 * 1024"

record Coalescer =
  co_buf :: bytes
  co_timer :: timer
  co_armed :: bool

definition Coalescer_New :: "instant \<Rightarrow> Coalescer" where
  "Coalescer_New now =
     (case Timer_Stop (Timer_New now 0) of
        (stopped, t) \<Rightarrow>
          (if \<not> stopped then \<lparr>co_buf = [], co_timer = None, co_armed = False\<rparr>
           else \<lparr>co_buf = [], co_timer = t, co_armed = False\<rparr>))"

definition Coalescer_Add :: "instant \<Rightarrow> Coalescer \<Rightarrow> bytes \<Rightarrow> Coalescer \<times> bool" where
  "Coalescer_Add now c data =
     (if length data = 0 then (c, False)
      else
        let c1 = (if length (co_buf c) = 0 \<and> \<not> co_armed c
                  then c\<lparr>co_timer := Timer_Reset (co_timer c) now Delay, co_armed := True\<rparr> else c);
            c2 = c1\<lparr>co_buf := co_buf c1 @ data\<rparr>
        in (c2, length (co_buf c2) \<ge> Threshold))"

definition Coalescer_Flush :: "Coalescer \<Rightarrow> Coalescer \<times> bytes option" where
  "Coalescer_Flush c =
     (if length (co_buf c) = 0 then (c, None)
      else
        let c1 = (if co_armed c
                  then (case Timer_Stop (co_timer c) of
                          (stopped, t) \<Rightarrow>
                            if \<not> stopped then c\<lparr>co_timer := None, co_armed := False\<rparr>
                            else c\<lparr>co_timer := t, co_armed := False\<rparr>)
                  else c)
        in (c1\<lparr>co_buf := []\<rparr>, Some (co_buf c1)))"

definition Coalescer_Timer :: "Coalescer \<Rightarrow> timer option" where
  "Coalescer_Timer c = (if \<not> co_armed c then None else Some (co_timer c))"

definition Coalescer_Stop :: "Coalescer \<Rightarrow> Coalescer" where
  "Coalescer_Stop c = c\<lparr>co_timer := snd (Timer_Stop (co_timer c)), co_armed := False\<rparr>"

text \<open>
  The select case \<^verbatim>\<open><-coal.Timer()\<close>: enabled when the channel is not nil and the timer has fired;
  taking it consumes the fired value.
\<close>

definition Coalescer_ready :: "Coalescer \<Rightarrow> instant \<Rightarrow> bool" where
  "Coalescer_ready c now \<longleftrightarrow> (case Coalescer_Timer c of None \<Rightarrow> False | Some t \<Rightarrow> Timer_fires t now)"

definition Coalescer_recv :: "Coalescer \<Rightarrow> Coalescer" where
  "Coalescer_recv c = c\<lparr>co_timer := None\<rparr>"

section \<open>Invariant\<close>

text \<open>
  Between two turns of the select loop the coalescer is either empty and disarmed, or it holds bytes
  and its timer runs. \<open>coal_inv\<close> is what also holds right after the timer case was taken.
\<close>

definition coal_inv :: "Coalescer \<Rightarrow> bool" where
  "coal_inv c \<longleftrightarrow> (co_armed c \<longleftrightarrow> co_buf c \<noteq> []) \<and> (co_timer c \<noteq> None \<longrightarrow> co_armed c)"

definition coal_idle :: "Coalescer \<Rightarrow> bool" where
  "coal_idle c \<longleftrightarrow> coal_inv c \<and> (co_armed c \<longrightarrow> co_timer c \<noteq> None)"

lemmas coal_defs = Coalescer_New_def Coalescer_Add_def Coalescer_Flush_def Coalescer_Timer_def
  Coalescer_Stop_def Coalescer_recv_def Coalescer_ready_def Timer_New_def Timer_Stop_def
  Timer_Reset_def Timer_fires_def Let_def

lemma coal_idle_inv [inv_intros]: "coal_idle c \<Longrightarrow> coal_inv c"
  by (simp add: coal_idle_def)

lemma coal_idle_New [simp, inv_intros]: "coal_idle (Coalescer_New now)"
  by (simp add: coal_defs coal_inv_def coal_idle_def)

lemma coal_idle_Add [inv_intros]: "coal_idle c \<Longrightarrow> coal_idle (fst (Coalescer_Add now c data))"
  by (auto simp: coal_defs coal_inv_def coal_idle_def)

lemma coal_inv_recv [inv_intros]: "coal_inv c \<Longrightarrow> coal_inv (Coalescer_recv c)"
  by (auto simp: coal_defs coal_inv_def)

lemma coal_idle_Flush [inv_intros]: "coal_inv c \<Longrightarrow> coal_idle (fst (Coalescer_Flush c))"
  by (auto simp: coal_defs coal_inv_def coal_idle_def)

lemma Add_buf [simp]: "co_buf (fst (Coalescer_Add now c data)) = co_buf c @ data"
  by (simp add: coal_defs)

lemma Add_threshold [simp]: "snd (Coalescer_Add now c data) \<longleftrightarrow> data \<noteq> [] \<and> Threshold \<le> length (co_buf c @ data)"
  by (simp add: coal_defs)

lemma recv_buf [simp]: "co_buf (Coalescer_recv c) = co_buf c"
  by (simp add: coal_defs)

lemma Flush_buf [simp]: "co_buf (fst (Coalescer_Flush c)) = []"
  by (simp add: coal_defs)

lemma Flush_data [simp]: "snd (Coalescer_Flush c) = (if co_buf c = [] then None else Some (co_buf c))"
  by (simp add: coal_defs)

section \<open>Runs\<close>

text \<open>
  What an owner does with its coalescer: add a chunk, take the timer case when it is enabled and
  flush, or flush for another reason. A run collects the flushed batches.
\<close>

datatype coal_op = OpAdd instant bytes | OpTimer instant | OpFlush

definition batch :: "bytes option \<Rightarrow> bytes list" where
  "batch d = (case d of None \<Rightarrow> [] | Some b \<Rightarrow> [b])"

fun coal_step :: "Coalescer \<Rightarrow> coal_op \<Rightarrow> Coalescer \<times> bytes list" where
  "coal_step c (OpAdd now data) =
     (case Coalescer_Add now c data of
        (c1, True) \<Rightarrow> (case Coalescer_Flush c1 of (c2, d) \<Rightarrow> (c2, batch d))
      | (c1, False) \<Rightarrow> (c1, []))"
| "coal_step c (OpTimer now) =
     (if Coalescer_ready c now
      then (case Coalescer_Flush (Coalescer_recv c) of (c2, d) \<Rightarrow> (c2, batch d))
      else (c, []))"
| "coal_step c OpFlush = (case Coalescer_Flush c of (c2, d) \<Rightarrow> (c2, batch d))"

fun coal_run :: "Coalescer \<Rightarrow> coal_op list \<Rightarrow> Coalescer \<times> bytes list" where
  "coal_run c [] = (c, [])"
| "coal_run c (x # xs) =
     (case coal_step c x of (c1, out) \<Rightarrow> (case coal_run c1 xs of (c2, out') \<Rightarrow> (c2, out @ out')))"

fun added :: "coal_op \<Rightarrow> bytes" where
  "added (OpAdd now data) = data"
| "added _ = []"

lemma concat_batch [simp]: "concat (batch (snd (Coalescer_Flush c))) = co_buf c"
  by (simp add: batch_def)

lemma coal_step_bytes:
  "coal_step c x = (c', out) \<Longrightarrow> concat out @ co_buf c' = co_buf c @ added x"
  by (cases x) (auto simp: batch_def case_prod_unfold bool.case_eq_if split: if_splits)

lemma coal_step_idle [inv_intros]: "coal_idle c \<Longrightarrow> coal_idle (fst (coal_step c x))"
  by (cases x) (auto simp: case_prod_unfold bool.case_eq_if intro!: inv_intros)

lemma coal_step_small:
  "coal_step c x = (c', out) \<Longrightarrow> length (co_buf c) < Threshold \<Longrightarrow>
     length (co_buf c') < Threshold \<and> (\<forall>b \<in> set out. b \<noteq> [] \<and> length b < Threshold + length (added x))"
  by (cases x) (auto simp: batch_def case_prod_unfold bool.case_eq_if split: if_splits)

lemma coal_run_bytes:
  "coal_run c xs = (c', out) \<Longrightarrow> concat out @ co_buf c' = co_buf c @ concat (map added xs)"
proof (induction xs arbitrary: c c' out)
  case (Cons x xs)
  obtain c1 o1 where step: "coal_step c x = (c1, o1)" by fastforce
  with Cons.prems obtain o2 where "coal_run c1 xs = (c', o2)" "out = o1 @ o2" by (auto split: prod.splits)
  with Cons.IH [of c1 c' o2] coal_step_bytes [OF step] show ?case by (metis append_assoc concat.simps(2) concat_append list.simps(9))
qed simp

lemma coal_run_idle: "coal_idle c \<Longrightarrow> coal_idle (fst (coal_run c xs))"
proof (induction xs arbitrary: c)
  case (Cons x xs)
  then show ?case using coal_step_idle [OF Cons.prems, of x] by (simp add: case_prod_unfold)
qed simp

lemma adds_keep_deadline:
  "coal_inv c \<Longrightarrow> co_buf c \<noteq> [] \<Longrightarrow> coal_run c (map (\<lambda>(t, d). OpAdd t d) adds) = (c', []) \<Longrightarrow>
     co_timer c' = co_timer c \<and> co_armed c' = co_armed c"
proof (induction adds arbitrary: c)
  case (Cons x adds)
  obtain t d where x: "x = (t, d)" by fastforce
  let ?c1 = "fst (Coalescer_Add t c d)"
  have keep: "co_timer ?c1 = co_timer c \<and> co_armed ?c1 = co_armed c \<and> co_buf ?c1 \<noteq> [] \<and> coal_inv ?c1"
    using Cons.prems(1,2) by (auto simp: coal_defs coal_inv_def)
  have "coal_run ?c1 (map (\<lambda>(t, d). OpAdd t d) adds) = (c', [])"
    using Cons.prems(2,3) x
    by (auto simp: case_prod_unfold bool.case_eq_if batch_def prod_eq_iff split: if_splits)
  with keep Cons.IH [of ?c1] show ?case by simp
qed simp

section \<open>Properties\<close>

text \<open>C35: The coalescer neither loses, duplicates nor reorders bytes: whatever mix of additions,
  deadline flushes and explicit flushes it sees, the flushed batches in order, followed by what is
  still buffered, are the bytes added, in order.\<close>

theorem coalescer_preserves_stream:
  assumes "coal_run (Coalescer_New t0) ops = (c, out)"
  shows "concat out @ co_buf c = concat (map added ops)"
  using coal_run_bytes [OF assms] by (simp add: coal_defs)

theorem coalescer_preserves_stream_witness:
  "concat [[1, 2 :: byte]] @ [3] = concat (map added [OpAdd 5 [1, 2], OpFlush, OpAdd 9 [3]])"
proof -
  obtain c where "coal_run (Coalescer_New 0) [OpAdd 5 [1, 2], OpFlush, OpAdd 9 [3]] = (c, [[1, 2]])"
      "co_buf c = [3]"
    by (simp add: coal_defs batch_def Threshold_def)
  then show ?thesis using coalescer_preserves_stream by metis
qed

text \<open>Deadline, not debounce. The first byte of a batch starts the deadline; further bytes,
  however many, do not move it. So from two milliseconds after the first byte on, and not earlier, the
  select loop finds the timer case enabled.\<close>

theorem deadline_from_first_byte:
  assumes "coal_idle c" and "co_buf c = []" and "data \<noteq> []"
    and "coal_run c (OpAdd t0 data # map (\<lambda>(t, d). OpAdd t d) adds) = (c', [])"
  shows "Coalescer_ready c' now \<longleftrightarrow> t0 + Delay \<le> now"
proof -
  let ?c1 = "fst (Coalescer_Add t0 c data)"
  have "coal_run ?c1 (map (\<lambda>(t, d). OpAdd t d) adds) = (c', [])"
    using assms(2-4)
    by (auto simp: case_prod_unfold bool.case_eq_if batch_def prod_eq_iff split: if_splits)
  moreover have "coal_inv ?c1" using assms(1) by (intro inv_intros)
  moreover have "co_timer ?c1 = Some (t0 + Delay)" "co_armed ?c1"
    using assms(1-3) by (simp_all add: coal_defs coal_idle_def coal_inv_def)
  ultimately have "co_timer c' = Some (t0 + Delay)" "co_armed c'"
    using adds_keep_deadline [of ?c1 adds c'] assms(3) by simp_all
  then show ?thesis by (simp add: Coalescer_ready_def Coalescer_Timer_def Timer_fires_def)
qed

theorem deadline_from_first_byte_witness:
  "\<exists>c'. coal_run (Coalescer_New 0) [OpAdd 10 [1], OpAdd 500000 [2]] = (c', []) \<and> Coalescer_ready c' 2000010
     \<and> \<not> Coalescer_ready c' 2000009"
proof -
  obtain c' where "coal_run (Coalescer_New 0) (OpAdd 10 [1] # map (\<lambda>(t, d). OpAdd t d) [(500000, [2])]) = (c', [])"
    by (simp add: coal_defs Threshold_def)
  then show ?thesis
    using deadline_from_first_byte [OF coal_idle_New, of 0 "[1]" 10 "[(500000, [2])]" c' 2000010]
      deadline_from_first_byte [OF coal_idle_New, of 0 "[1]" 10 "[(500000, [2])]" c' 2000009]
    by (simp add: Delay_def coal_defs)
qed

text \<open>The timer case never fires without a batch to send, and no batch waits without a
  deadline: in every state reached by a run, the timer case can become enabled exactly when bytes are
  buffered.\<close>

theorem timer_runs_iff_bytes_wait:
  assumes "coal_run (Coalescer_New t0) ops = (c, out)"
  shows "(\<exists>now. Coalescer_ready c now) \<longleftrightarrow> co_buf c \<noteq> []"
proof -
  have "coal_idle c" using coal_run_idle [OF coal_idle_New, of t0 ops] assms by simp
  then show ?thesis
    by (cases "co_timer c") (auto simp: coal_idle_def coal_inv_def Coalescer_ready_def Coalescer_Timer_def Timer_fires_def)
qed

theorem timer_runs_iff_bytes_wait_witness:
  "\<exists>c. coal_run (Coalescer_New 0) [OpAdd 10 [1]] = (c, []) \<and> (\<exists>now. Coalescer_ready c now)"
proof -
  obtain c where c: "coal_run (Coalescer_New 0) [OpAdd 10 [1]] = (c, [])" "co_buf c = [1]"
    by (simp add: coal_defs Threshold_def)
  then show ?thesis using timer_runs_iff_bytes_wait [OF c(1)] by simp
qed

end
