(* ===== verification/Protocol.thy ===== *)
theory Protocol
  imports Goet_Prelude
begin

text \<open>
  The wire format of \<^verbatim>\<open>internal/protocol\<close>: the message types (\<^verbatim>\<open>constants.go\<close>), framing and
  encoding over an \<^verbatim>\<open>io.Writer\<close> (\<open>WriteMessage\<close>, \<open>writeDataMessage\<close>) and framing and
  decoding from an \<^verbatim>\<open>io.Reader\<close> (\<open>ReadMessage\<close>, \<open>DecodePayload\<close>). A writer is a parameter
  \<open>wr\<close> with the contract of the locale \<open>io_writer\<close>; a reader is a list of segments, in the
  sizes in which the transport happens to deliver them, followed by the error the stream ends
  with. The lemmas show the round trip for every encodable message, its independence of the
  segmentation, unique decodability, and what happens on each error branch.
\<close>

section \<open>Constants\<close>

type_synonym MessageType = byte
type_synonym AuthStatus = byte

definition HeaderSize :: nat where "HeaderSize = 5"
definition MaxPayloadSize :: nat where "MaxPayloadSize = 4 * 1024 * 1024"

definition MsgAuthRequest :: MessageType where "MsgAuthRequest = 0x01"
definition MsgAuthResponse :: MessageType where "MsgAuthResponse = 0x02"
definition MsgSequenceHdr :: MessageType where "MsgSequenceHdr = 0x03"
definition MsgHeartbeat :: MessageType where "MsgHeartbeat = 0x10"
definition MsgResize :: MessageType where "MsgResize = 0x11"
definition MsgShutdown :: MessageType where "MsgShutdown = 0x12"
definition MsgTerminalInfo :: MessageType where "MsgTerminalInfo = 0x13"
definition MsgData :: MessageType where "MsgData = 0x20"

definition AuthOK :: AuthStatus where "AuthOK = 0"
definition AuthFailed :: AuthStatus where "AuthFailed = 1"
definition AuthSessionNotFound :: AuthStatus where "AuthSessionNotFound = 2"

definition AuthRequestSize :: nat where "AuthRequestSize = 32"
definition AuthResponseSize :: nat where "AuthResponseSize = 1"
definition SequenceHdrSize :: nat where "SequenceHdrSize = 8"
definition HeartbeatSize :: nat where "HeartbeatSize = 8"
definition ResizeSize :: nat where "ResizeSize = 4"
definition DataHeaderSize :: nat where "DataHeaderSize = 8"

lemmas msg_type_defs =
  MsgAuthRequest_def MsgAuthResponse_def MsgSequenceHdr_def MsgHeartbeat_def MsgResize_def
  MsgShutdown_def MsgTerminalInfo_def MsgData_def

lemmas size_defs =
  HeaderSize_def MaxPayloadSize_def AuthRequestSize_def AuthResponseSize_def SequenceHdrSize_def
  HeartbeatSize_def ResizeSize_def DataHeaderSize_def

section \<open>Messages\<close>

text \<open>
  One constructor per message struct of \<^verbatim>\<open>messages.go\<close>. The \<^verbatim>\<open>int64\<close> of a heartbeat is kept as
  its two's complement word. \<open>OtherValue\<close> stands for a value of any other Go type (with its
  type name), since \<open>WriteMessage\<close> takes an \<^verbatim>\<open>any\<close>.
\<close>

datatype message =
    AuthRequest (Token: bytes)
  | AuthResponse (Status: AuthStatus)
  | SequenceHeader (LastReceivedSeq: u64)
  | Heartbeat (TimestampMs: u64)
  | Resize (Rows: u16) (Cols: u16)
  | Shutdown
  | TerminalInfo (Term: string)
  | Data (Seq: u64) (Payload: bytes)
  | OtherValue string

datatype proto_error =
    ErrPayloadTooLarge
  | ErrUnknownMessage MessageType
  | ErrShortPayload
  | ErrTermTooLong nat
  | ErrUnsupported string
  | IOError io_error
  | PanicSliceBounds

section \<open>Encoding\<close>

type_synonym 'w io_write = "'w \<Rightarrow> bytes \<Rightarrow> 'w \<times> io_error option"

fun encodePayload :: "message \<Rightarrow> proto_error + (MessageType \<times> bytes)" where
  "encodePayload (AuthRequest tok) = Inr (MsgAuthRequest, tok)"
| "encodePayload (AuthResponse st) = Inr (MsgAuthResponse, [st])"
| "encodePayload (SequenceHeader q) = Inr (MsgSequenceHdr, put_be 8 q)"
| "encodePayload (Heartbeat t) = Inr (MsgHeartbeat, put_be 8 t)"
| "encodePayload (Resize r c) = Inr (MsgResize, put_be 2 r @ put_be 2 c)"
| "encodePayload Shutdown = Inr (MsgShutdown, [])"
| "encodePayload (TerminalInfo t) =
     (let termBytes = bytes_of_string t in
      if length termBytes > 65535 then Inl (ErrTermTooLong (length termBytes))
      else Inr (MsgTerminalInfo, put_be 2 (of_nat (length termBytes) :: u16) @ termBytes))"
| "encodePayload (Data q p) = Inr (MsgData, put_be 8 q @ p)"
| "encodePayload (OtherValue ty) = Inl (ErrUnsupported ty)"

text \<open>
  The two writes of a frame: the first chunk, and the second one unless it is empty, each
  stopping at the first error (the tails of \<open>WriteMessage\<close> and \<open>writeDataMessage\<close>).
\<close>

definition writeChunks :: "'w io_write \<Rightarrow> 'w \<Rightarrow> bytes \<Rightarrow> bytes \<Rightarrow> 'w \<times> proto_error option" where
  "writeChunks wr w a b =
     (case wr w a of
        (w1, Some e) \<Rightarrow> (w1, Some (IOError e))
      | (w1, None) \<Rightarrow>
          (if length b > 0
           then (case wr w1 b of
                   (w2, Some e) \<Rightarrow> (w2, Some (IOError e))
                 | (w2, None) \<Rightarrow> (w2, None))
           else (w1, None)))"

definition writeDataMessage :: "'w io_write \<Rightarrow> 'w \<Rightarrow> u64 \<Rightarrow> bytes \<Rightarrow> 'w \<times> proto_error option" where
  "writeDataMessage wr w q p =
     (let payloadLen = DataHeaderSize + length p in
      if payloadLen > MaxPayloadSize then (w, Some ErrPayloadTooLarge)
      else writeChunks wr w (put_be 4 (of_nat payloadLen :: u32) @ [MsgData] @ put_be 8 q) p)"

definition WriteMessage :: "'w io_write \<Rightarrow> 'w \<Rightarrow> message \<Rightarrow> 'w \<times> proto_error option" where
  "WriteMessage wr w msg =
     (case msg of
        Data q p \<Rightarrow> writeDataMessage wr w q p
      | _ \<Rightarrow>
          (case encodePayload msg of
             Inl e \<Rightarrow> (w, Some e)
           | Inr (msgType, payload) \<Rightarrow>
               (if length payload > MaxPayloadSize then (w, Some ErrPayloadTooLarge)
                else writeChunks wr w (put_be 4 (of_nat (length payload) :: u32) @ [msgType]) payload)))"

section \<open>Decoding\<close>

text \<open>
  A reader: the segments that successive calls of \<^verbatim>\<open>Read\<close> can deliver, then the error that every
  later call returns. \<open>ReadFull\<close> is the loop of \<^verbatim>\<open>io.ReadFull\<close> over such a reader.
\<close>

record reader =
  segs :: "bytes list"
  rerr :: io_error

fun readLoop :: "nat \<Rightarrow> bytes \<Rightarrow> bytes list \<Rightarrow> io_error \<Rightarrow> (io_error + bytes) \<times> bytes list" where
  "readLoop k acc [] e =
     (if k = 0 then (Inr acc, [])
      else (Inl (if acc = [] then e else if e = EOF then ErrUnexpectedEOF else e), []))"
| "readLoop k acc (s # ss) e =
     (if k = 0 then (Inr acc, s # ss)
      else if length s \<le> k then readLoop (k - length s) (acc @ s) ss e
      else (Inr (acc @ take k s), drop k s # ss))"

definition ReadFull :: "nat \<Rightarrow> reader \<Rightarrow> (io_error + bytes) \<times> reader" where
  "ReadFull k r = (case readLoop k [] (segs r) (rerr r) of (res, ss) \<Rightarrow> (res, r\<lparr>segs := ss\<rparr>))"

definition DecodePayload :: "MessageType \<Rightarrow> bytes \<Rightarrow> proto_error + message" where
  "DecodePayload msgType payload =
     (if msgType = MsgAuthRequest then
        (if length payload < AuthRequestSize then Inl ErrShortPayload
         else Inr (AuthRequest (take 32 payload)))
      else if msgType = MsgAuthResponse then
        (if length payload < AuthResponseSize then Inl ErrShortPayload
         else Inr (AuthResponse (payload ! 0)))
      else if msgType = MsgSequenceHdr then
        (if length payload < SequenceHdrSize then Inl ErrShortPayload
         else Inr (SequenceHeader (get_be (take 8 payload))))
      else if msgType = MsgHeartbeat then
        (if length payload < HeartbeatSize then Inl ErrShortPayload
         else Inr (Heartbeat (get_be (take 8 payload))))
      else if msgType = MsgResize then
        (if length payload < ResizeSize then Inl ErrShortPayload
         else Inr (Resize (get_be (take 2 payload)) (get_be (take 2 (drop 2 payload)))))
      else if msgType = MsgShutdown then Inr Shutdown
      else if msgType = MsgTerminalInfo then
        (if length payload < 2 then Inl ErrShortPayload
         else let termLen = (get_be (take 2 payload) :: u16) in
           if length payload < 2 + unat termLen then Inl ErrShortPayload
           else (case slice_range payload 2 (unat (2 + termLen)) of
                   None \<Rightarrow> Inl PanicSliceBounds
                 | Some t \<Rightarrow> Inr (TerminalInfo (string_of_bytes t))))
      else if msgType = MsgData then
        (if length payload < DataHeaderSize then Inl ErrShortPayload
         else Inr (Data (get_be (take 8 payload)) (drop 8 payload)))
      else Inl (ErrUnknownMessage msgType))"

definition ReadMessage :: "reader \<Rightarrow> (proto_error + message) \<times> reader" where
  "ReadMessage r =
     (case ReadFull HeaderSize r of
        (Inl e, r1) \<Rightarrow> (Inl (IOError e), r1)
      | (Inr header, r1) \<Rightarrow>
          (let payloadLen = (get_be (take 4 header) :: u32); msgType = header ! 4 in
           if unat payloadLen > MaxPayloadSize then (Inl ErrPayloadTooLarge, r1)
           else if unat payloadLen > 0 then
             (case ReadFull (unat payloadLen) r1 of
                (Inl e, r2) \<Rightarrow> (Inl (IOError e), r2)
              | (Inr payload, r2) \<Rightarrow> (DecodePayload msgType payload, r2))
           else (DecodePayload msgType [], r1)))"

section \<open>Specification\<close>

text \<open>
  \<open>frame\<close> is the byte string of one framed message, \<open>encodable\<close> says which messages the
  format can carry (a Go array of type \<^verbatim>\<open>[32]byte\<close> has 32 elements), \<open>pending\<close> is what a reader
  has yet to deliver, and \<open>parseFrame\<close> reads one message from a flat byte string.
\<close>

definition frame :: "message \<Rightarrow> bytes" where
  "frame m = (case encodePayload m of
                Inl _ \<Rightarrow> []
              | Inr (t, p) \<Rightarrow> put_be 4 (of_nat (length p) :: u32) @ [t] @ p)"

fun encodable :: "message \<Rightarrow> bool" where
  "encodable (AuthRequest tok) = (length tok = 32)"
| "encodable (TerminalInfo t) = (length t \<le> 65533)"
| "encodable (Data q p) = (DataHeaderSize + length p \<le> MaxPayloadSize)"
| "encodable (OtherValue ty) = False"
| "encodable m = True"

definition pending :: "reader \<Rightarrow> bytes" where
  "pending r = concat (segs r)"

definition shortError :: "bytes \<Rightarrow> io_error \<Rightarrow> io_error" where
  "shortError bs e = (if bs = [] then e else if e = EOF then ErrUnexpectedEOF else e)"

definition parseFrame :: "bytes \<Rightarrow> io_error \<Rightarrow> (proto_error + message) \<times> bytes" where
  "parseFrame bs e =
     (if length bs < 5 then (Inl (IOError (shortError bs e)), [])
      else let n = unat (get_be (take 4 bs) :: u32); body = drop 5 bs in
        if n > MaxPayloadSize then (Inl ErrPayloadTooLarge, body)
        else if length body < n then (Inl (IOError (shortError body e)), [])
        else (DecodePayload (bs ! 4) (take n body), drop n body))"

section \<open>Reading does not depend on the segmentation\<close>

lemma readLoop_enough:
  "k \<le> length (concat ss) \<Longrightarrow>
     \<exists>ss'. readLoop k acc ss e = (Inr (acc @ take k (concat ss)), ss') \<and> concat ss' = drop k (concat ss)"
  by (induction k acc ss e rule: readLoop.induct) auto

lemma readLoop_short:
  "length (concat ss) < k \<Longrightarrow> readLoop k acc ss e = (Inl (shortError (acc @ concat ss) e), [])"
  by (induction k acc ss e rule: readLoop.induct) (auto simp: shortError_def)

lemma ReadFull_enough:
  assumes "k \<le> length (pending r)"
  obtains r' where "ReadFull k r = (Inr (take k (pending r)), r')"
    "pending r' = drop k (pending r)" "rerr r' = rerr r"
  using readLoop_enough [of k "segs r" "[]" "rerr r"] assms
  by (auto simp: ReadFull_def pending_def)

lemma ReadFull_short:
  assumes "length (pending r) < k"
  obtains r' where "ReadFull k r = (Inl (shortError (pending r) (rerr r)), r')"
    "pending r' = []" "rerr r' = rerr r"
  using readLoop_short [of "segs r" k "[]" "rerr r"] assms
  by (auto simp: ReadFull_def pending_def)

lemma ReadMessage_parseFrame:
  obtains r' where "ReadMessage r = (fst (parseFrame (pending r) (rerr r)), r')"
    "pending r' = snd (parseFrame (pending r) (rerr r))" "rerr r' = rerr r"
proof (cases "length (pending r) < 5")
  case True
  then obtain r1 where "ReadFull 5 r = (Inl (shortError (pending r) (rerr r)), r1)"
      "pending r1 = []" "rerr r1 = rerr r" by (rule ReadFull_short)
  with True show ?thesis
    by (intro that [of r1]) (simp_all add: ReadMessage_def parseFrame_def HeaderSize_def)
next
  case False
  then obtain r1 where r1: "ReadFull 5 r = (Inr (take 5 (pending r)), r1)"
      "pending r1 = drop 5 (pending r)" "rerr r1 = rerr r"
    using ReadFull_enough [of 5 r] by auto
  define n where "n = unat (get_be (take 4 (pending r)) :: u32)"
  note defs = ReadMessage_def parseFrame_def HeaderSize_def r1 Let_def n_def [symmetric]
  show ?thesis
  proof (cases "n > MaxPayloadSize \<or> n = 0")
    case True
    with False show ?thesis by (intro that [of r1]) (auto simp: defs)
  next
    case n: False
    show ?thesis
    proof (cases "length (pending r1) < n")
      case True
      then obtain r2 where "ReadFull n r1 = (Inl (shortError (pending r1) (rerr r1)), r2)"
          "pending r2 = []" "rerr r2 = rerr r1" by (rule ReadFull_short)
      with False True n show ?thesis by (intro that [of r2]) (auto simp: defs)
    next
      case enough: False
      then obtain r2 where "ReadFull n r1 = (Inr (take n (pending r1)), r2)"
          "pending r2 = drop n (pending r1)" "rerr r2 = rerr r1"
        using ReadFull_enough [of n r1] by auto
      with False enough n show ?thesis by (intro that [of r2]) (auto simp: defs)
    qed
  qed
qed

section \<open>Encoding then decoding\<close>

lemma encodePayload_cases:
  assumes "encodable m"
  obtains t p where "encodePayload m = Inr (t, p)" "length p \<le> MaxPayloadSize" "DecodePayload t p = Inr m"
proof (cases m)
  case (TerminalInfo s)
  let ?n = "of_nat (length s) :: u16"
  have len: "length s \<le> 65533" using assms TerminalInfo by simp
  then have n: "unat ?n = length s" by (simp add: unat_of_nat)
  have "unat (2 + ?n) = 2 + length s"
    using len n by (simp add: unat_word_ariths)
  with len n show ?thesis
    by (intro that [of MsgTerminalInfo "put_be 2 ?n @ bytes_of_string s"])
       (simp_all add: TerminalInfo DecodePayload_def msg_type_defs size_defs slice_range_def)
qed (use assms in \<open>auto simp: DecodePayload_def msg_type_defs size_defs intro: that\<close>)

lemma u32_of_small: "n \<le> MaxPayloadSize \<Longrightarrow> unat (of_nat n :: u32) = n"
  by (simp add: unat_of_nat MaxPayloadSize_def)

lemma parseFrame_raw:
  "length p \<le> MaxPayloadSize \<Longrightarrow>
     parseFrame (put_be 4 (of_nat (length p) :: u32) @ t # p @ rest) e = (DecodePayload t p, rest)"
  by (simp add: parseFrame_def u32_of_small nth_append)

lemma parseFrame_frame [frame_simps]:
  assumes "encodable m"
  shows "parseFrame (frame m @ rest) e = (Inr m, rest)"
proof -
  obtain t p where "encodePayload m = Inr (t, p)" "length p \<le> MaxPayloadSize" "DecodePayload t p = Inr m"
    using assms by (rule encodePayload_cases)
  then show ?thesis by (simp add: frame_def parseFrame_raw)
qed

lemma parseFrame_truncated:
  assumes "encodable m" and "k < length (frame m)"
  shows "\<exists>e'. parseFrame (take k (frame m)) e = (Inl (IOError e'), [])"
proof -
  obtain t p where tp: "encodePayload m = Inr (t, p)" "length p \<le> MaxPayloadSize"
    using assms(1) by (rule encodePayload_cases)
  then have "frame m = put_be 4 (of_nat (length p) :: u32) @ [t] @ p" by (simp add: frame_def)
  then show ?thesis
    using assms(2) tp(2) by (auto simp: parseFrame_def u32_of_small min_def Let_def)
qed

lemma parseFrame_consumes: "parseFrame bs e = (Inr m, rest) \<Longrightarrow> length rest < length bs"
  by (auto simp: parseFrame_def Let_def split: if_splits)

lemma frame_length: "encodable m \<Longrightarrow> 5 \<le> length (frame m)"
  by (elim encodePayload_cases) (simp add: frame_def)

text \<open>All the messages at the front of a byte string.\<close>

function parseAll :: "bytes \<Rightarrow> message list" where
  "parseAll bs = (case parseFrame bs EOF of (Inl e, rest) \<Rightarrow> [] | (Inr m, rest) \<Rightarrow> m # parseAll rest)"
  by pat_completeness auto
termination
  by (relation "measure length") (auto dest!: sym [of "(Inr _, _)"] parseFrame_consumes)

declare parseAll.simps [simp del]

lemma parseAll_frame [frame_simps]: "encodable m \<Longrightarrow> parseAll (frame m @ rest) = m # parseAll rest"
  by (subst parseAll.simps) (simp add: parseFrame_frame)

lemma parseAll_frames [frame_simps]:
  "\<forall>m \<in> set ms. encodable m \<Longrightarrow> parseAll (concat (map frame ms) @ rest) = ms @ parseAll rest"
  by (induction ms) (simp_all add: parseAll_frame)

lemma parseAll_truncated [frame_simps]:
  "encodable m \<Longrightarrow> k < length (frame m) \<Longrightarrow> parseAll (take k (frame m)) = []"
  using parseFrame_truncated [of m k EOF] by (auto simp: parseAll.simps [of "take k (frame m)"])

lemma parseAll_Nil [simp]: "parseAll [] = []"
  by (subst parseAll.simps) (simp add: parseFrame_def)

text \<open>The two chunks a message is written in, or the error found before anything is written.\<close>

definition frameChunks :: "message \<Rightarrow> proto_error + bytes \<times> bytes" where
  "frameChunks m =
     (case encodePayload m of
        Inl e \<Rightarrow> Inl e
      | Inr (t, p) \<Rightarrow>
          if length p > MaxPayloadSize then Inl ErrPayloadTooLarge
          else let n = (case m of Data _ _ \<Rightarrow> 8 | _ \<Rightarrow> 0) in
            Inr (put_be 4 (of_nat (length p) :: u32) @ [t] @ take n p, drop n p))"

lemma frameChunks_frame: "frameChunks m = Inr (a, b) \<Longrightarrow> frame m = a @ b"
  by (auto simp: frameChunks_def frame_def Let_def split: sum.splits if_splits)

lemma WriteMessage_chunks:
  "WriteMessage wr w m =
     (case frameChunks m of Inl e \<Rightarrow> (w, Some e) | Inr (a, b) \<Rightarrow> writeChunks wr w a b)"
  by (cases m) (simp_all add: WriteMessage_def writeDataMessage_def frameChunks_def DataHeaderSize_def
        Let_def split: sum.split)

lemma decode_panics:
  "DecodePayload t p = Inl PanicSliceBounds \<longleftrightarrow>
     t = MsgTerminalInfo \<and> 65534 \<le> unat (get_be (take 2 p) :: u16)
     \<and> 2 + unat (get_be (take 2 p) :: u16) \<le> length p"
proof -
  let ?n = "get_be (take 2 p) :: u16"
  have "unat ?n < 65536" using unsigned_less [of ?n, where ?'a = nat] by simp
  then have wrap: "unat (2 + ?n) = (if 65534 \<le> unat ?n then unat ?n - 65534 else 2 + unat ?n)"
    by (auto simp: unat_word_ariths le_mod_geq)
  show ?thesis
    using \<open>unat ?n < 65536\<close>
    by (auto simp: DecodePayload_def slice_range_def wrap Let_def msg_type_defs split: if_splits option.splits)
qed

section \<open>Writing to an \<^verbatim>\<open>io.Writer\<close>\<close>

text \<open>
  The contract of \<^verbatim>\<open>io.Writer\<close>: a write that reports no error has appended all its bytes, one
  that reports an error has appended some prefix of them.
\<close>

locale io_writer =
  fixes wr :: "'w io_write"
    and sent :: "'w \<Rightarrow> bytes"
  assumes write_ok: "wr w p = (w', None) \<Longrightarrow> sent w' = sent w @ p"
    and write_err: "wr w p = (w', Some e) \<Longrightarrow> \<exists>n \<le> length p. sent w' = sent w @ take n p"
begin

lemma writeChunks_ok: "writeChunks wr w a b = (w', None) \<Longrightarrow> sent w' = sent w @ a @ b"
  by (auto simp: writeChunks_def split: prod.splits option.splits if_splits dest!: write_ok)

lemma writeChunks_err:
  assumes "writeChunks wr w a b = (w', Some e)"
  shows "\<exists>n \<le> length (a @ b). sent w' = sent w @ take n (a @ b)"
proof -
  obtain w1 e1 where w1: "wr w a = (w1, e1)" by fastforce
  show ?thesis
  proof (cases e1)
    case (Some x)
    with w1 obtain n where "n \<le> length a" "sent w1 = sent w @ take n a"
      using write_err by blast
    with Some w1 assms show ?thesis by (auto simp: writeChunks_def intro!: exI [of _ n])
  next
    case None
    with w1 assms obtain e2 where w2: "wr w1 b = (w', Some e2)"
      by (auto simp: writeChunks_def split: prod.splits option.splits if_splits)
    then obtain n where "n \<le> length b" "sent w' = sent w1 @ take n b"
      using write_err by blast
    with w1 None show ?thesis by (auto dest!: write_ok intro!: exI [of _ "length a + n"])
  qed
qed

lemma WriteMessage_ok: "WriteMessage wr w m = (w', None) \<Longrightarrow> sent w' = sent w @ frame m"
  using WriteMessage_chunks [of wr w m] writeChunks_ok by (auto split: sum.splits dest: frameChunks_frame)

lemma WriteMessage_err:
  "WriteMessage wr w m = (w', Some e) \<Longrightarrow> \<exists>n \<le> length (frame m). sent w' = sent w @ take n (frame m)"
  using WriteMessage_chunks [of wr w m] writeChunks_err
  by (fastforce split: sum.splits dest: frameChunks_frame)

end

section \<open>Properties\<close>


lemmas read_eval = ReadMessage_def ReadFull_def DecodePayload_def get_be_def size_defs msg_type_defs Let_def

definition list_writer :: "bytes io_write" where
  "list_writer w p = (w @ p, None)"

lemma io_writer_list_writer: "io_writer list_writer (\<lambda>w. w)"
  by unfold_locales (simp_all add: list_writer_def)


text \<open>The outcome of \<open>ReadMessage\<close>, value or error, and the bytes it leaves unread depend
  only on the byte string and the final error of the stream, not on how the transport segments the
  bytes.\<close>

theorem read_segmentation:
  assumes "pending r1 = pending r2" and "rerr r1 = rerr r2"
  shows "fst (ReadMessage r1) = fst (ReadMessage r2)
    \<and> pending (snd (ReadMessage r1)) = pending (snd (ReadMessage r2))"
proof -
  obtain r1' where "ReadMessage r1 = (fst (parseFrame (pending r1) (rerr r1)), r1')"
      "pending r1' = snd (parseFrame (pending r1) (rerr r1))" by (rule ReadMessage_parseFrame)
  moreover obtain r2' where "ReadMessage r2 = (fst (parseFrame (pending r2) (rerr r2)), r2')"
      "pending r2' = snd (parseFrame (pending r2) (rerr r2))" by (rule ReadMessage_parseFrame)
  ultimately show ?thesis using assms by simp
qed

theorem read_segmentation_witness:
  "fst (ReadMessage \<lparr>segs = [[0, 0, 0, 0, 18], [1]], rerr = EOF\<rparr>) =
     fst (ReadMessage \<lparr>segs = [[0], [], [0, 0, 0], [18, 1]], rerr = EOF\<rparr>)"
  using read_segmentation [of "\<lparr>segs = [[0, 0, 0, 0, 18], [1]], rerr = EOF\<rparr>"
      "\<lparr>segs = [[0], [], [0, 0, 0], [18, 1]], rerr = EOF\<rparr>"]
  by (simp add: pending_def)

text \<open>Frames are uniquely decodable. Two encodable messages whose frames start the same
  byte string are the same message, so a stream of frames has one reading.\<close>

theorem frame_unique:
  assumes "encodable m" and "encodable m'" and "frame m @ xs = frame m' @ ys"
  shows "m = m' \<and> xs = ys"
  using parseFrame_frame [OF assms(1), of xs EOF] parseFrame_frame [OF assms(2), of ys EOF] assms(3)
  by (metis prod.inject sum.inject(2))

theorem frame_unique_witness:
  "Shutdown = Shutdown \<and> [1 :: byte] = [1]"
  using frame_unique [of Shutdown Shutdown "[1]" "[1]"] by simp

text \<open>C34: Everything \<open>ReadMessage\<close> returns is a message the format can carry: an authentication
  token has 32 bytes, a terminal name at most 65533 bytes, a data payload fits the 4 MB limit, and
  no value of a foreign type appears.\<close>

theorem read_gives_encodable:
  assumes "ReadMessage r = (Inr m, r')"
  shows "encodable m"
proof -
  have dec: "encodable m" if "DecodePayload t p = Inr m" "length p \<le> MaxPayloadSize" for t p
    using that unsigned_less [of "2 + (get_be (take 2 p) :: u16)", where ?'a = nat]
    by (auto simp: DecodePayload_def size_defs slice_range_def Let_def split: if_splits option.splits)
  obtain r'' where "ReadMessage r = (fst (parseFrame (pending r) (rerr r)), r'')"
    by (rule ReadMessage_parseFrame)
  with assms show ?thesis
    by (auto simp: parseFrame_def Let_def intro!: dec split: if_splits)
qed

theorem read_gives_encodable_witness: "encodable (Heartbeat 7)"
proof -
  have "ReadMessage \<lparr>segs = [[0, 0, 0, 8, 16, 0, 0, 0, 0, 0, 0, 0, 7]], rerr = EOF\<rparr> =
      (Inr (Heartbeat 7), \<lparr>segs = [], rerr = EOF\<rparr>)"
    by (simp add: read_eval)
  then show ?thesis by (rule read_gives_encodable)
qed

text \<open>The decoder panics on exactly one kind of payload: a \<open>TerminalInfo\<close> whose 16-bit
  length field is 65534 or 65535 and whose payload is long enough to hold it. There \<^verbatim>\<open>2+termLen\<close>
  is computed in 16 bits and wraps to 0 or 1, below the lower bound of the slice expression.\<close>

theorem DecodePayload_panics_iff:
  "DecodePayload t p = Inl PanicSliceBounds \<longleftrightarrow>
     t = MsgTerminalInfo \<and> 65534 \<le> unat (get_be (take 2 p) :: u16)
     \<and> 2 + unat (get_be (take 2 p) :: u16) \<le> length p"
  by (rule decode_panics)

text \<open>The encoder accepts terminal names of 65534 and 65535 bytes (its own limit is 65535),
  writes the whole frame, and the peer that reads the frame panics.\<close>

theorem long_term_read_panics:
  assumes "length t = 65534 \<or> length t = 65535"
    and "io_writer wr sent" and "WriteMessage wr w (TerminalInfo t) = (w', None)"
    and "pending r = drop (length (sent w)) (sent w') @ rest"
  shows "fst (ReadMessage r) = Inl PanicSliceBounds"
proof -
  let ?n = "of_nat (length t) :: u16"
  let ?p = "put_be 2 ?n @ bytes_of_string t"
  have n: "unat ?n = length t" using assms(1) by (auto simp: unat_of_nat)
  have enc: "encodePayload (TerminalInfo t) = Inr (MsgTerminalInfo, ?p)" using assms(1) by auto
  have small: "length ?p \<le> MaxPayloadSize" using assms(1) by (auto simp: MaxPayloadSize_def)
  have dec: "DecodePayload MsgTerminalInfo ?p = Inl PanicSliceBounds"
    using assms(1) n by (auto simp: decode_panics)
  have "frame (TerminalInfo t) = put_be 4 (of_nat (length ?p) :: u32) @ MsgTerminalInfo # ?p"
    unfolding frame_def enc by simp
  then have "pending r = put_be 4 (of_nat (length ?p) :: u32) @ MsgTerminalInfo # ?p @ rest"
    using assms(2-4) by (simp add: io_writer.WriteMessage_ok)
  then have "fst (parseFrame (pending r) (rerr r)) = Inl PanicSliceBounds"
    using parseFrame_raw [OF small, of MsgTerminalInfo rest "rerr r"] dec by simp
  moreover obtain r' where "ReadMessage r = (fst (parseFrame (pending r) (rerr r)), r')"
    by (rule ReadMessage_parseFrame)
  ultimately show ?thesis by simp
qed

theorem long_term_read_panics_witness:
  "\<exists>w'. WriteMessage list_writer [] (TerminalInfo (replicate 65534 CHR ''x'')) = (w', None)
     \<and> fst (ReadMessage \<lparr>segs = [w'], rerr = EOF\<rparr>) = Inl PanicSliceBounds"
proof -
  obtain w' where w': "WriteMessage list_writer [] (TerminalInfo (replicate 65534 CHR ''x'')) = (w', None)"
    by (simp add: WriteMessage_def writeChunks_def list_writer_def MaxPayloadSize_def)
  then show ?thesis
    using long_term_read_panics [OF _ io_writer_list_writer w', of "\<lparr>segs = [w'], rerr = EOF\<rparr>" "[]"]
    by (simp add: pending_def)
qed

text \<open>A header that announces more than 4 MB is refused at once: no byte of the announced
  payload is read, and nothing is allocated for it.\<close>

theorem oversized_frame_refused:
  assumes "5 \<le> length (pending r)" and "MaxPayloadSize < unat (get_be (take 4 (pending r)) :: u32)"
  shows "fst (ReadMessage r) = Inl ErrPayloadTooLarge \<and> pending (snd (ReadMessage r)) = drop 5 (pending r)"
proof -
  obtain r' where "ReadMessage r = (fst (parseFrame (pending r) (rerr r)), r')"
      "pending r' = snd (parseFrame (pending r) (rerr r))" by (rule ReadMessage_parseFrame)
  with assms show ?thesis by (simp add: parseFrame_def Let_def)
qed

theorem oversized_frame_refused_witness:
  "fst (ReadMessage \<lparr>segs = [[0, 64, 0], [1, 32, 9]], rerr = EOF\<rparr>) = Inl ErrPayloadTooLarge"
  using oversized_frame_refused [of "\<lparr>segs = [[0, 64, 0], [1, 32, 9]], rerr = EOF\<rparr>"]
  by (simp add: pending_def get_be_def MaxPayloadSize_def)

text \<open>A frame cut short never yields a message: on every proper prefix of a frame
  \<open>ReadMessage\<close> reports an I/O error and consumes what there is.\<close>

theorem truncated_frame_is_error:
  assumes "encodable m" and "k < length (frame m)" and "pending r = take k (frame m)"
  shows "\<exists>e. fst (ReadMessage r) = Inl (IOError e) \<and> pending (snd (ReadMessage r)) = []"
proof -
  obtain r' where "ReadMessage r = (fst (parseFrame (pending r) (rerr r)), r')"
      "pending r' = snd (parseFrame (pending r) (rerr r))" by (rule ReadMessage_parseFrame)
  then show ?thesis using parseFrame_truncated [OF assms(1,2), of "rerr r"] assms(3) by auto
qed

theorem truncated_frame_is_error_witness:
  "\<exists>e. fst (ReadMessage \<lparr>segs = [[0], [0, 0]], rerr = EOF\<rparr>) = Inl (IOError e)"
proof -
  have "length (frame Shutdown) = 5" "take 3 (frame Shutdown) = [0, 0, 0]"
    by (simp_all add: frame_def put_be_numeral)
  then show ?thesis
    using truncated_frame_is_error [of Shutdown 3 "\<lparr>segs = [[0], [0, 0]], rerr = EOF\<rparr>"]
    by (auto simp: pending_def)
qed

end
