(* ===== verification/Auth.thy ===== *)
theory Auth
  imports Goet_Prelude
begin

text \<open>
  Authentication tokens, \<^verbatim>\<open>internal/auth/auth.go\<close>: HMAC-SHA256 of the TLS exporter material under
  the session's passkey. The standard library's \<^verbatim>\<open>crypto/sha256\<close>, \<^verbatim>\<open>crypto/hmac\<close> and
  \<^verbatim>\<open>crypto/subtle\<close> are modelled as their specifications define them (FIPS 180-4, RFC 2104), so that
  tokens can be computed; the source of random bytes is a parameter. The lemmas show the shape of
  tokens and that verification accepts exactly the computed token.
\<close>

section \<open>SHA-256\<close>

text \<open>
  The constants are the first 32 bits of the fractional parts of the cube roots of the first 64
  primes and of the square roots of the first 8. \<open>rootBits k n b acc\<close> settles the \<open>b\<close> lower
  bits of the integer \<open>k\<close>-th root of \<open>n\<close>, whose upper bits are \<open>acc\<close>; roots here have at most
  36 bits.
\<close>

primrec rootBits :: "nat \<Rightarrow> int \<Rightarrow> nat \<Rightarrow> int \<Rightarrow> int" where
  "rootBits k n 0 acc = acc"
| "rootBits k n (Suc b) acc = rootBits k n b (let t = acc + 2 ^ b in if t ^ k \<le> n then t else acc)"

definition rootFraction :: "nat \<Rightarrow> int \<Rightarrow> u32" where
  "rootFraction k p = word_of_int (rootBits k (p * 2 ^ (32 * k)) 36 0)"

definition sha_primes :: "int list" where
  "sha_primes = filter (\<lambda>p. \<forall>q \<in> set [2, 3, 5, 7, 11, 13, 17]. p mod q = 0 \<longrightarrow> p = q) [2..311]"

definition sha_K :: "u32 list" where
  "sha_K = map (rootFraction 3) sha_primes"

type_synonym sha_state = "u32 \<times> u32 \<times> u32 \<times> u32 \<times> u32 \<times> u32 \<times> u32 \<times> u32"

definition sha_init :: sha_state where
  "sha_init = (let r = rootFraction 2 in (r 2, r 3, r 5, r 7, r 11, r 13, r 17, r 19))"

definition sha_Ch :: "u32 \<Rightarrow> u32 \<Rightarrow> u32 \<Rightarrow> u32" where
  "sha_Ch e f g = (e AND f) XOR (NOT e AND g)"

definition sha_Maj :: "u32 \<Rightarrow> u32 \<Rightarrow> u32 \<Rightarrow> u32" where
  "sha_Maj a b c = (a AND b) XOR (a AND c) XOR (b AND c)"

definition sha_S0 :: "u32 \<Rightarrow> u32" where
  "sha_S0 a = word_rotr 2 a XOR word_rotr 13 a XOR word_rotr 22 a"

definition sha_S1 :: "u32 \<Rightarrow> u32" where
  "sha_S1 e = word_rotr 6 e XOR word_rotr 11 e XOR word_rotr 25 e"

definition sha_s0 :: "u32 \<Rightarrow> u32" where
  "sha_s0 x = word_rotr 7 x XOR word_rotr 18 x XOR drop_bit 3 x"

definition sha_s1 :: "u32 \<Rightarrow> u32" where
  "sha_s1 x = word_rotr 17 x XOR word_rotr 19 x XOR drop_bit 10 x"

text \<open>The message schedule, newest word first.\<close>

primrec sha_extend :: "nat \<Rightarrow> u32 list \<Rightarrow> u32 list" where
  "sha_extend 0 ws = ws"
| "sha_extend (Suc n) ws = sha_extend n ((sha_s1 (ws ! 1) + ws ! 6 + sha_s0 (ws ! 14) + ws ! 15) # ws)"

fun sha_words :: "bytes \<Rightarrow> u32 list" where
  "sha_words (a # b # c # d # bs) = get_be [a, b, c, d] # sha_words bs"
| "sha_words _ = []"

fun sha_round :: "sha_state \<Rightarrow> u32 \<times> u32 \<Rightarrow> sha_state" where
  "sha_round (a, b, c, d, e, f, g, h) (k, w) =
     (let t1 = h + sha_S1 e + sha_Ch e f g + k + w; t2 = sha_S0 a + sha_Maj a b c
      in (t1 + t2, a, b, c, d + t1, e, f, g))"

fun sha_add :: "sha_state \<Rightarrow> sha_state \<Rightarrow> sha_state" where
  "sha_add (a, b, c, d, e, f, g, h) (a', b', c', d', e', f', g', h') =
     (a + a', b + b', c + c', d + d', e + e', f + f', g + g', h + h')"

definition sha_block :: "sha_state \<Rightarrow> bytes \<Rightarrow> sha_state" where
  "sha_block st blk =
     (let ws = rev (sha_extend 48 (rev (sha_words blk)))
      in sha_add st (foldl sha_round st (zip sha_K ws)))"

definition sha_pad :: "bytes \<Rightarrow> bytes" where
  "sha_pad msg = msg @ [0x80] @ replicate ((119 - length msg mod 64) mod 64) 0
     @ put_be 8 (of_nat (8 * length msg) :: u64)"

fun sha_blocks :: "nat \<Rightarrow> sha_state \<Rightarrow> bytes \<Rightarrow> sha_state" where
  "sha_blocks 0 st msg = st"
| "sha_blocks (Suc n) st msg = sha_blocks n (sha_block st (take 64 msg)) (drop 64 msg)"

fun sha_digest :: "sha_state \<Rightarrow> bytes" where
  "sha_digest (a, b, c, d, e, f, g, h) =
     concat (map (put_be 4) [a, b, c, d, e, f, g, h])"

definition sha256 :: "bytes \<Rightarrow> bytes" where
  "sha256 msg = (let m = sha_pad msg in sha_digest (sha_blocks (length m div 64) sha_init m))"

section \<open>HMAC and constant-time comparison\<close>

definition hmac_key :: "bytes \<Rightarrow> bytes" where
  "hmac_key key =
     (let k = (if length key > 64 then sha256 key else key) in k @ replicate (64 - length k) 0)"

definition hmac_sha256 :: "bytes \<Rightarrow> bytes \<Rightarrow> bytes" where
  "hmac_sha256 key msg =
     (let k = hmac_key key
      in sha256 (map (\<lambda>b. b XOR 0x5c) k @ sha256 (map (\<lambda>b. b XOR 0x36) k @ msg)))"

definition hmac_Equal :: "bytes \<Rightarrow> bytes \<Rightarrow> bool" where
  "hmac_Equal x y =
     (length x = length y \<and> foldl (\<lambda>v (a, b). v OR (a XOR b)) 0 (zip x y) = 0)"

section \<open>Tokens\<close>

definition PasskeySize :: nat where "PasskeySize = 32"

text \<open>\<^verbatim>\<open>rand.Read\<close> fills a buffer of the given length or fails; it is a parameter.\<close>

definition GeneratePasskey :: "(nat \<Rightarrow> 'e + bytes) \<Rightarrow> 'e + bytes" where
  "GeneratePasskey randRead = (case randRead PasskeySize of Inl e \<Rightarrow> Inl e | Inr key \<Rightarrow> Inr key)"

definition ComputeAuthToken :: "bytes \<Rightarrow> bytes \<Rightarrow> bytes" where
  "ComputeAuthToken passkey exporterMaterial =
     (let sum = hmac_sha256 passkey exporterMaterial; token = replicate 32 0
      in take 32 sum @ drop (length sum) token)"

definition VerifyAuthToken :: "bytes \<Rightarrow> bytes \<Rightarrow> bytes \<Rightarrow> bool" where
  "VerifyAuthToken passkey exporterMaterial token =
     (let expected = ComputeAuthToken passkey exporterMaterial in hmac_Equal token expected)"

lemma length_sha256 [simp]: "length (sha256 msg) = 32"
proof -
  have "length (sha_digest st) = 32" for st by (cases st rule: sha_digest.cases) simp
  then show ?thesis by (simp add: sha256_def Let_def)
qed

lemma length_hmac [simp]: "length (hmac_sha256 key msg) = 32"
  by (simp add: hmac_sha256_def Let_def)

lemma ComputeAuthToken_hmac: "ComputeAuthToken passkey material = hmac_sha256 passkey material"
  by (simp add: ComputeAuthToken_def Let_def)

lemma foldl_xor_zero:
  "foldl (\<lambda>v (a, b). v OR (a XOR b)) v (zip x y) = (0 :: byte) \<longleftrightarrow>
     v = 0 \<and> (\<forall>(a, b) \<in> set (zip x y). a = b)"
proof (induction x y arbitrary: v rule: list_induct2')
  case (4 x xs y ys)
  have "v OR (x XOR y) = 0 \<longleftrightarrow> v = 0 \<and> x = y"
    by (metis or_eq_0_iff xor.assoc xor.left_neutral xor.right_neutral xor_self_eq)
  with 4 show ?case by auto
qed auto

lemma hmac_Equal_iff: "hmac_Equal x y \<longleftrightarrow> x = y"
  by (auto simp: hmac_Equal_def foldl_xor_zero zip_same intro: list_eq_iff_zip_eq [THEN iffD2])

section \<open>Properties\<close>

text \<open>Verification accepts exactly one token: \<open>VerifyAuthToken\<close>, which compares in constant
  time by OR-ing the differences of all bytes, holds for the token \<open>ComputeAuthToken\<close> gives under
  the same passkey and exporter material, 32 bytes of HMAC-SHA256, and for no other.\<close>

theorem VerifyAuthToken_iff:
  "(VerifyAuthToken passkey material token \<longleftrightarrow> token = ComputeAuthToken passkey material)
   \<and> ComputeAuthToken passkey material = hmac_sha256 passkey material
   \<and> length (ComputeAuthToken passkey material) = 32"
  by (simp add: VerifyAuthToken_def hmac_Equal_iff ComputeAuthToken_hmac)

end
