(* ===== verification/Transport.thy ===== *)
theory Transport
  imports Protocol Auth
begin

text \<open>
  Connections between a client and a session, \<^verbatim>\<open>internal/transport\<close>: the \<^verbatim>\<open>Conn\<close> interface with its
  two implementations (QUIC with separate control and data streams, TCP+TLS with one stream that is
  demultiplexed after the handshake) and the authentication handshake of both sides over both
  transports. QUIC, TCP and TLS themselves are not under src/: a stream is a reader and a writer of
  which the environment chooses the incoming bytes, their segmentation, the final error and after
  how many bytes writes start to fail, and the TLS exporter material is an argument. A read deadline
  shows up as the final error \<open>ErrDeadline\<close> of a reader.
\<close>

section \<open>Streams\<close>

record wstream =
  ws_sent :: bytes
  ws_room :: "nat option"

definition Stream_Write :: "wstream io_write" where
  "Stream_Write w p =
     (case ws_room w of
        None \<Rightarrow> (w\<lparr>ws_sent := ws_sent w @ p\<rparr>, None)
      | Some k \<Rightarrow>
          if length p \<le> k then (w\<lparr>ws_sent := ws_sent w @ p, ws_room := Some (k - length p)\<rparr>, None)
          else (w\<lparr>ws_sent := ws_sent w @ take k p, ws_room := Some 0\<rparr>, Some ErrClosed))"

interpretation stream_writer: io_writer Stream_Write ws_sent
proof unfold_locales
  fix w p w'
  show "Stream_Write w p = (w', None) \<Longrightarrow> ws_sent w' = ws_sent w @ p"
    by (auto simp: Stream_Write_def split: option.splits if_splits)
next
  fix w p w' e
  assume "Stream_Write w p = (w', Some e)"
  then obtain k where "ws_room w = Some k" "k < length p" "ws_sent w' = ws_sent w @ take k p"
    by (auto simp: Stream_Write_def split: option.splits if_splits)
  then show "\<exists>n \<le> length p. ws_sent w' = ws_sent w @ take n p" by (intro exI [of _ k]) simp
qed

record stream =
  st_r :: reader
  st_w :: wstream

definition Stream_WriteMessage :: "stream \<Rightarrow> message \<Rightarrow> stream \<times> proto_error option" where
  "Stream_WriteMessage st m =
     (case WriteMessage Stream_Write (st_w st) m of (w, e) \<Rightarrow> (st\<lparr>st_w := w\<rparr>, e))"

definition Stream_ReadMessage :: "stream \<Rightarrow> (proto_error + message) \<times> stream" where
  "Stream_ReadMessage st = (case ReadMessage (st_r st) of (res, r) \<Rightarrow> (res, st\<lparr>st_r := r\<rparr>))"

definition Stream_Close :: "stream \<Rightarrow> stream" where
  "Stream_Close st = st\<lparr>st_r := \<lparr>segs = [], rerr = ErrClosed\<rparr>, st_w := (st_w st)\<lparr>ws_room := Some 0\<rparr>\<rparr>"

section \<open>Connections\<close>

datatype conn_error = ProtoErr proto_error | ErrChanClosed

record quicConn =
  qc_control :: stream
  qc_data :: stream
  qc_lastClientSeq :: u64

definition quicConn_Close :: "quicConn \<Rightarrow> quicConn" where
  "quicConn_Close c = c\<lparr>qc_control := Stream_Close (qc_control c), qc_data := Stream_Close (qc_data c)\<rparr>"

definition quicConn_WriteControl :: "quicConn \<Rightarrow> message \<Rightarrow> quicConn \<times> proto_error option" where
  "quicConn_WriteControl c m =
     (case Stream_WriteMessage (qc_control c) m of (st, e) \<Rightarrow> (c\<lparr>qc_control := st\<rparr>, e))"

definition quicConn_ReadControl :: "quicConn \<Rightarrow> (proto_error + message) \<times> quicConn" where
  "quicConn_ReadControl c =
     (case Stream_ReadMessage (qc_control c) of (res, st) \<Rightarrow> (res, c\<lparr>qc_control := st\<rparr>))"

definition quicConn_WriteData :: "quicConn \<Rightarrow> message \<Rightarrow> quicConn \<times> proto_error option" where
  "quicConn_WriteData c m =
     (case Stream_WriteMessage (qc_data c) m of (st, e) \<Rightarrow> (c\<lparr>qc_data := st\<rparr>, e))"

definition quicConn_ReadData :: "quicConn \<Rightarrow> (proto_error + message) \<times> quicConn" where
  "quicConn_ReadData c =
     (case Stream_ReadMessage (qc_data c) of (res, st) \<Rightarrow> (res, c\<lparr>qc_data := st\<rparr>))"

text \<open>
  \<open>tc_chClosed\<close> says that the demux goroutine has exited and closed both channels, \<open>tc_done\<close> that
  the \<^verbatim>\<open>done\<close> channel is closed.
\<close>

record tcpConn =
  tc_conn :: stream
  tc_controlCh :: "(proto_error + message) list"
  tc_dataCh :: "(proto_error + message) list"
  tc_chClosed :: bool
  tc_lastClientSeq :: u64
  tc_demuxStarted :: bool
  tc_done :: bool

definition chanCap :: nat where "chanCap = 16"

definition newTCPConn :: "stream \<Rightarrow> u64 \<Rightarrow> tcpConn" where
  "newTCPConn st seq = \<lparr>tc_conn = st, tc_controlCh = [], tc_dataCh = [], tc_chClosed = False,
     tc_lastClientSeq = seq, tc_demuxStarted = False, tc_done = False\<rparr>"

text \<open>A read from a channel that is empty and still open blocks: \<open>None\<close>.\<close>

definition tcpConn_ReadControl :: "tcpConn \<Rightarrow> ((conn_error + message) \<times> tcpConn) option" where
  "tcpConn_ReadControl c =
     (if \<not> tc_demuxStarted c then
        (case Stream_ReadMessage (tc_conn c) of (res, st) \<Rightarrow> Some (map_sum ProtoErr id res, c\<lparr>tc_conn := st\<rparr>))
      else (case tc_controlCh c of
              res # rest \<Rightarrow> Some (map_sum ProtoErr id res, c\<lparr>tc_controlCh := rest\<rparr>)
            | [] \<Rightarrow> if tc_chClosed c then Some (Inl ErrChanClosed, c) else None))"

definition tcpConn_ReadData :: "tcpConn \<Rightarrow> ((conn_error + message) \<times> tcpConn) option" where
  "tcpConn_ReadData c =
     (if \<not> tc_demuxStarted c then
        (case Stream_ReadMessage (tc_conn c) of (res, st) \<Rightarrow> Some (map_sum ProtoErr id res, c\<lparr>tc_conn := st\<rparr>))
      else (case tc_dataCh c of
              res # rest \<Rightarrow> Some (map_sum ProtoErr id res, c\<lparr>tc_dataCh := rest\<rparr>)
            | [] \<Rightarrow> if tc_chClosed c then Some (Inl ErrChanClosed, c) else None))"

definition tcpConn_WriteControl :: "tcpConn \<Rightarrow> message \<Rightarrow> tcpConn \<times> proto_error option" where
  "tcpConn_WriteControl c m =
     (case Stream_WriteMessage (tc_conn c) m of (st, e) \<Rightarrow> (c\<lparr>tc_conn := st\<rparr>, e))"

definition tcpConn_WriteData :: "tcpConn \<Rightarrow> message \<Rightarrow> tcpConn \<times> proto_error option" where
  "tcpConn_WriteData c m =
     (case Stream_WriteMessage (tc_conn c) m of (st, e) \<Rightarrow> (c\<lparr>tc_conn := st\<rparr>, e))"

definition tcpConn_StartDemux :: "tcpConn \<Rightarrow> tcpConn" where
  "tcpConn_StartDemux c = (if tc_demuxStarted c then c else c\<lparr>tc_demuxStarted := True\<rparr>)"

definition tcpConn_Close :: "tcpConn \<Rightarrow> tcpConn" where
  "tcpConn_Close c = (if tc_done c then c else c\<lparr>tc_done := True, tc_conn := Stream_Close (tc_conn c)\<rparr>)"

text \<open>
  One turn of \<open>demuxLoop\<close>. A failed read is offered to both channels without blocking, then both
  are closed (a panic of the decoder ends the process instead: there is no step); a message goes to its channel when there is room, or is given up once \<^verbatim>\<open>done\<close> is
  closed. With room and \<^verbatim>\<open>done\<close> closed, the select may take either case.
\<close>

definition offer :: "'a list \<Rightarrow> 'a \<Rightarrow> 'a list" where
  "offer ch x = (if length ch < chanCap then ch @ [x] else ch)"

definition isData :: "message \<Rightarrow> bool" where
  "isData m = (case m of Data _ _ \<Rightarrow> True | _ \<Rightarrow> False)"

inductive demux_step :: "tcpConn \<Rightarrow> tcpConn \<Rightarrow> bool" where
  read_error: "tc_demuxStarted c \<Longrightarrow> \<not> tc_chClosed c \<Longrightarrow> Stream_ReadMessage (tc_conn c) = (Inl e, st) \<Longrightarrow>
     e \<noteq> PanicSliceBounds \<Longrightarrow>
     demux_step c (c\<lparr>tc_conn := st, tc_controlCh := offer (tc_controlCh c) (Inl e),
       tc_dataCh := offer (tc_dataCh c) (Inl e), tc_chClosed := True\<rparr>)"
| to_data: "tc_demuxStarted c \<Longrightarrow> \<not> tc_chClosed c \<Longrightarrow> Stream_ReadMessage (tc_conn c) = (Inr m, st) \<Longrightarrow>
     isData m \<Longrightarrow> length (tc_dataCh c) < chanCap \<Longrightarrow>
     demux_step c (c\<lparr>tc_conn := st, tc_dataCh := tc_dataCh c @ [Inr m]\<rparr>)"
| to_control: "tc_demuxStarted c \<Longrightarrow> \<not> tc_chClosed c \<Longrightarrow> Stream_ReadMessage (tc_conn c) = (Inr m, st) \<Longrightarrow>
     \<not> isData m \<Longrightarrow> length (tc_controlCh c) < chanCap \<Longrightarrow>
     demux_step c (c\<lparr>tc_conn := st, tc_controlCh := tc_controlCh c @ [Inr m]\<rparr>)"
| gave_up: "tc_demuxStarted c \<Longrightarrow> \<not> tc_chClosed c \<Longrightarrow> Stream_ReadMessage (tc_conn c) = (Inr m, st) \<Longrightarrow>
     tc_done c \<Longrightarrow> demux_step c (c\<lparr>tc_conn := st, tc_chClosed := True\<rparr>)"

text \<open>The interface \<^verbatim>\<open>transport.Conn\<close>, dispatching on the implementation.\<close>

datatype Conn = QuicConn quicConn | TcpConn tcpConn

fun Conn_WriteControl :: "Conn \<Rightarrow> message \<Rightarrow> Conn \<times> proto_error option" where
  "Conn_WriteControl (QuicConn c) m = apfst QuicConn (quicConn_WriteControl c m)"
| "Conn_WriteControl (TcpConn c) m = apfst TcpConn (tcpConn_WriteControl c m)"

fun Conn_WriteData :: "Conn \<Rightarrow> message \<Rightarrow> Conn \<times> proto_error option" where
  "Conn_WriteData (QuicConn c) m = apfst QuicConn (quicConn_WriteData c m)"
| "Conn_WriteData (TcpConn c) m = apfst TcpConn (tcpConn_WriteData c m)"

fun Conn_ReadControl :: "Conn \<Rightarrow> ((conn_error + message) \<times> Conn) option" where
  "Conn_ReadControl (QuicConn c) =
     (case quicConn_ReadControl c of (res, c') \<Rightarrow> Some (map_sum ProtoErr id res, QuicConn c'))"
| "Conn_ReadControl (TcpConn c) = map_option (apsnd TcpConn) (tcpConn_ReadControl c)"

fun Conn_ReadData :: "Conn \<Rightarrow> ((conn_error + message) \<times> Conn) option" where
  "Conn_ReadData (QuicConn c) =
     (case quicConn_ReadData c of (res, c') \<Rightarrow> Some (map_sum ProtoErr id res, QuicConn c'))"
| "Conn_ReadData (TcpConn c) = map_option (apsnd TcpConn) (tcpConn_ReadData c)"

fun Conn_LastClientSeq :: "Conn \<Rightarrow> u64" where
  "Conn_LastClientSeq (QuicConn c) = qc_lastClientSeq c"
| "Conn_LastClientSeq (TcpConn c) = tc_lastClientSeq c"

fun Conn_StartDemux :: "Conn \<Rightarrow> Conn" where
  "Conn_StartDemux (QuicConn c) = QuicConn c"
| "Conn_StartDemux (TcpConn c) = TcpConn (tcpConn_StartDemux c)"

fun Conn_Close :: "Conn \<Rightarrow> Conn" where
  "Conn_Close (QuicConn c) = QuicConn (quicConn_Close c)"
| "Conn_Close (TcpConn c) = TcpConn (tcpConn_Close c)"

section \<open>Handshake\<close>

datatype auth_error =
    ErrOpenStream
  | ErrExportKeyingMaterial
  | ErrReadAuthRequest proto_error
  | ErrExpectedAuthRequest message
  | ErrInvalidPasskey
  | ErrWriteAuthResponse proto_error
  | ErrReadSeqHeader proto_error
  | ErrExpectedSequenceHeader message
  | ErrWriteAuthRequest proto_error
  | ErrReadAuthResponse proto_error
  | ErrExpectedAuthResponse message
  | ErrAuthRejected AuthStatus
  | ErrWriteSeqHeader proto_error

text \<open>
  The server's half, up to the response: read the request, compute the expected token from the
  exporter material (\<open>None\<close> when exporting fails), answer. The same statements open
  \<open>authenticate\<close> of both listeners.
\<close>

definition serverAuth :: "bytes \<Rightarrow> bytes option \<Rightarrow> stream \<Rightarrow> stream \<times> auth_error option" where
  "serverAuth passkey material st =
     (case Stream_ReadMessage st of
        (Inl e, st1) \<Rightarrow> (st1, Some (ErrReadAuthRequest e))
      | (Inr (AuthRequest tok), st1) \<Rightarrow>
          (case material of
             None \<Rightarrow> (st1, Some ErrExportKeyingMaterial)
           | Some mat \<Rightarrow>
               (if \<not> VerifyAuthToken passkey mat tok
                then (fst (Stream_WriteMessage st1 (AuthResponse AuthFailed)), Some ErrInvalidPasskey)
                else (case Stream_WriteMessage st1 (AuthResponse AuthOK) of
                        (st2, Some e) \<Rightarrow> (st2, Some (ErrWriteAuthResponse e))
                      | (st2, None) \<Rightarrow> (st2, None))))
      | (Inr m, st1) \<Rightarrow> (st1, Some (ErrExpectedAuthRequest m)))"

definition serverSeqHeader :: "stream \<Rightarrow> stream \<times> (auth_error + u64)" where
  "serverSeqHeader st =
     (case Stream_ReadMessage st of
        (Inl e, st1) \<Rightarrow> (st1, Inl (ErrReadSeqHeader e))
      | (Inr (SequenceHeader q), st1) \<Rightarrow> (st1, Inr q)
      | (Inr m, st1) \<Rightarrow> (st1, Inl (ErrExpectedSequenceHeader m)))"

definition tcpListener_authenticate :: "bytes \<Rightarrow> bytes option \<Rightarrow> stream \<Rightarrow> stream \<times> (auth_error + tcpConn)" where
  "tcpListener_authenticate passkey material st =
     (case serverAuth passkey material st of
        (st1, Some e) \<Rightarrow> (st1, Inl e)
      | (st1, None) \<Rightarrow>
          (case serverSeqHeader st1 of
             (st2, Inl e) \<Rightarrow> (st2, Inl e)
           | (st2, Inr q) \<Rightarrow> (st2, Inr (newTCPConn st2 q))))"

text \<open>
  Over QUIC the two streams come from \<^verbatim>\<open>AcceptStream\<close> (server) and \<^verbatim>\<open>OpenStreamSync\<close> (client),
  either of which may fail: \<open>None\<close>. The result carries the streams as the handshake left them.
\<close>

definition quicListener_authenticate ::
    "bytes \<Rightarrow> bytes option \<Rightarrow> stream option \<Rightarrow> stream option \<Rightarrow> (stream option \<times> stream option) \<times> (auth_error + quicConn)" where
  "quicListener_authenticate passkey material control data =
     (case control of
        None \<Rightarrow> ((None, data), Inl ErrOpenStream)
      | Some cs \<Rightarrow>
          (case serverAuth passkey material cs of
             (cs1, Some e) \<Rightarrow> ((Some cs1, data), Inl e)
           | (cs1, None) \<Rightarrow>
               (case data of
                  None \<Rightarrow> ((Some cs1, None), Inl ErrOpenStream)
                | Some ds \<Rightarrow>
                    (case serverSeqHeader ds of
                       (ds1, Inl e) \<Rightarrow> ((Some cs1, Some ds1), Inl e)
                     | (ds1, Inr q) \<Rightarrow>
                         ((Some cs1, Some ds1),
                          Inr \<lparr>qc_control = cs1, qc_data = ds1, qc_lastClientSeq = q\<rparr>)))))"

text \<open>The client's half: send the token, await the verdict.\<close>

definition clientAuth :: "bytes \<Rightarrow> bytes option \<Rightarrow> stream \<Rightarrow> stream \<times> auth_error option" where
  "clientAuth passkey material st =
     (case material of
        None \<Rightarrow> (st, Some ErrExportKeyingMaterial)
      | Some mat \<Rightarrow>
          (case Stream_WriteMessage st (AuthRequest (ComputeAuthToken passkey mat)) of
             (st1, Some e) \<Rightarrow> (st1, Some (ErrWriteAuthRequest e))
           | (st1, None) \<Rightarrow>
               (case Stream_ReadMessage st1 of
                  (Inl e, st2) \<Rightarrow> (st2, Some (ErrReadAuthResponse e))
                | (Inr (AuthResponse status), st2) \<Rightarrow>
                    (if status \<noteq> AuthOK then (st2, Some (ErrAuthRejected status)) else (st2, None))
                | (Inr m, st2) \<Rightarrow> (st2, Some (ErrExpectedAuthResponse m)))))"

definition clientSeqHeader :: "u64 \<Rightarrow> stream \<Rightarrow> stream \<times> auth_error option" where
  "clientSeqHeader lastReceivedSeq st =
     (case Stream_WriteMessage st (SequenceHeader lastReceivedSeq) of
        (st1, Some e) \<Rightarrow> (st1, Some (ErrWriteSeqHeader e))
      | (st1, None) \<Rightarrow> (st1, None))"

definition performTCPAuth :: "bytes \<Rightarrow> u64 \<Rightarrow> bytes option \<Rightarrow> stream \<Rightarrow> stream \<times> (auth_error + tcpConn)" where
  "performTCPAuth passkey lastReceivedSeq material st =
     (case clientAuth passkey material st of
        (st1, Some e) \<Rightarrow> (st1, Inl e)
      | (st1, None) \<Rightarrow>
          (case clientSeqHeader lastReceivedSeq st1 of
             (st2, Some e) \<Rightarrow> (st2, Inl e)
           | (st2, None) \<Rightarrow> (st2, Inr (newTCPConn st2 0))))"

definition performQUICAuth ::
    "bytes \<Rightarrow> u64 \<Rightarrow> bytes option \<Rightarrow> stream option \<Rightarrow> stream option \<Rightarrow> (stream option \<times> stream option) \<times> (auth_error + quicConn)" where
  "performQUICAuth passkey lastReceivedSeq material control data =
     (case control of
        None \<Rightarrow> ((None, data), Inl ErrOpenStream)
      | Some cs \<Rightarrow>
          (case clientAuth passkey material cs of
             (cs1, Some e) \<Rightarrow> ((Some cs1, data), Inl e)
           | (cs1, None) \<Rightarrow>
               (case data of
                  None \<Rightarrow> ((Some cs1, None), Inl ErrOpenStream)
                | Some ds \<Rightarrow>
                    (case clientSeqHeader lastReceivedSeq ds of
                       (ds1, Some e) \<Rightarrow> ((Some cs1, Some ds1), Inl e)
                     | (ds1, None) \<Rightarrow>
                         ((Some cs1, Some ds1),
                          Inr \<lparr>qc_control = cs1, qc_data = ds1, qc_lastClientSeq = 0\<rparr>)))))"

text \<open>
  One turn of the listeners' accept loops, while the context is not cancelled: an authenticated
  connection is delivered, an error closes the connection and the loop goes on. The goroutine does
  not recover from a panic, so one ends the process.
\<close>

datatype 'c accept_outcome = Delivered 'c | Refused auth_error | Crashed

fun acceptOutcome :: "auth_error + 'c \<Rightarrow> 'c accept_outcome" where
  "acceptOutcome (Inr c) = Delivered c"
| "acceptOutcome (Inl (ErrReadAuthRequest PanicSliceBounds)) = Crashed"
| "acceptOutcome (Inl (ErrReadSeqHeader PanicSliceBounds)) = Crashed"
| "acceptOutcome (Inl e) = Refused e"

definition tcpAcceptLoop_turn :: "bytes \<Rightarrow> bytes option \<Rightarrow> stream \<Rightarrow> Conn accept_outcome" where
  "tcpAcceptLoop_turn passkey material st =
     acceptOutcome (map_sum id TcpConn (snd (tcpListener_authenticate passkey material st)))"

definition quicAcceptLoop_turn :: "bytes \<Rightarrow> bytes option \<Rightarrow> stream option \<Rightarrow> stream option \<Rightarrow> Conn accept_outcome" where
  "quicAcceptLoop_turn passkey material control data =
     acceptOutcome (map_sum id QuicConn (snd (quicListener_authenticate passkey material control data)))"

section \<open>What has been sent\<close>

text \<open>
  The messages written so far are those a peer can parse from the bytes. A writer that only ever
  wrote whole messages, except for the one during which it failed for good, is \<open>wellSent\<close>.
\<close>

definition sentMsgs :: "wstream \<Rightarrow> message list" where
  "sentMsgs w = parseAll (ws_sent w)"

definition partialFrame :: "bytes \<Rightarrow> bool" where
  "partialFrame part \<longleftrightarrow> (\<exists>m k. encodable m \<and> k < length (frame m) \<and> part = take k (frame m))"

definition wellSent :: "wstream \<Rightarrow> bool" where
  "wellSent w \<longleftrightarrow> (\<exists>ms part. (\<forall>m \<in> set ms. encodable m) \<and> ws_sent w = concat (map frame ms) @ part
     \<and> (part = [] \<or> ws_room w = Some 0 \<and> partialFrame part))"

lemma parseAll_partial: "partialFrame part \<Longrightarrow> parseAll part = []"
  by (auto simp: partialFrame_def parseAll_truncated)

lemma wellSent_cases:
  assumes "wellSent w"
  obtains (whole) ms where "\<forall>m \<in> set ms. encodable m" "ws_sent w = concat (map frame ms)" "sentMsgs w = ms"
  | (failed) "ws_room w = Some 0"
  using assms parseAll_frames [of _ "[]"] unfolding wellSent_def sentMsgs_def by fastforce

lemma wellSent_whole:
  assumes "\<forall>m \<in> set ms. encodable m" and "ws_sent w = concat (map frame ms)"
  shows "wellSent w" and "sentMsgs w = ms"
  using assms parseAll_frames [of ms "[]"] by (auto simp: wellSent_def sentMsgs_def)

lemma wellSent_partial:
  assumes "\<forall>m \<in> set ms. encodable m" and "ws_sent w = concat (map frame ms) @ part" and "partialFrame part"
    and "ws_room w = Some 0"
  shows "wellSent w" and "sentMsgs w = ms"
  using assms parseAll_frames [of ms part] parseAll_partial
  by (auto simp: wellSent_def sentMsgs_def)

lemma frameChunks_nonempty: "frameChunks m = Inr (a, b) \<Longrightarrow> a \<noteq> []"
  by (auto simp: frameChunks_def Let_def split: sum.splits if_splits)

lemma encodable_chunks: "encodable m \<Longrightarrow> \<exists>a b. frameChunks m = Inr (a, b)"
  by (elim encodePayload_cases) (simp add: frameChunks_def Let_def)

lemma Stream_Write_full: "ws_room w = Some 0 \<Longrightarrow> p \<noteq> [] \<Longrightarrow> Stream_Write w p = (w, Some ErrClosed)"
  by (cases w) (simp add: Stream_Write_def)

lemma WriteMessage_full:
  assumes "ws_room w = Some 0" and "encodable m"
  shows "\<exists>e. WriteMessage Stream_Write w m = (w, Some e)"
proof -
  obtain a b where "frameChunks m = Inr (a, b)" "a \<noteq> []"
    using encodable_chunks [OF assms(2)] frameChunks_nonempty by blast
  with assms(1) show ?thesis by (simp add: WriteMessage_chunks writeChunks_def Stream_Write_full)
qed

lemma Stream_Write_err:
  "Stream_Write w p = (w', Some e) \<Longrightarrow>
     ws_room w' = Some 0 \<and> (\<exists>n < length p. ws_sent w' = ws_sent w @ take n p)"
  by (auto simp: Stream_Write_def not_le split: option.splits if_splits)

lemma WriteMessage_stream_err:
  assumes "WriteMessage Stream_Write w m = (w', Some e)" and "encodable m"
  shows "ws_room w' = Some 0" and "\<exists>n < length (frame m). ws_sent w' = ws_sent w @ take n (frame m)"
proof -
  obtain a b where ab: "frameChunks m = Inr (a, b)" using encodable_chunks assms(2) by blast
  then have f: "frame m = a @ b" by (rule frameChunks_frame)
  consider (first) e1 where "Stream_Write w a = (w', Some e1)"
    | (second) w1 e2 where "Stream_Write w a = (w1, None)" "Stream_Write w1 b = (w', Some e2)"
    using assms(1) ab
    by (auto simp: WriteMessage_chunks writeChunks_def split: prod.splits option.splits if_splits)
  then have "ws_room w' = Some 0 \<and> (\<exists>n < length (a @ b). ws_sent w' = ws_sent w @ take n (a @ b))"
  proof cases
    case first
    then obtain n where "n < length a" "ws_sent w' = ws_sent w @ take n a" "ws_room w' = Some 0"
      using Stream_Write_err by blast
    then show ?thesis by (auto intro!: exI [of _ n])
  next
    case second
    then obtain n where "n < length b" "ws_sent w' = ws_sent w1 @ take n b" "ws_room w' = Some 0"
      using Stream_Write_err by blast
    with stream_writer.write_ok [OF second(1)] show ?thesis
      by (auto intro!: exI [of _ "length a + n"])
  qed
  with f show "ws_room w' = Some 0" "\<exists>n < length (frame m). ws_sent w' = ws_sent w @ take n (frame m)"
    by simp_all
qed

lemma WriteMessage_sent_ok:
  assumes "wellSent w" and "encodable m" and "WriteMessage Stream_Write w m = (w', None)"
  shows "wellSent w' \<and> sentMsgs w' = sentMsgs w @ [m]"
  using assms(1)
proof (cases rule: wellSent_cases)
  case (whole ms)
  with assms(2,3) stream_writer.WriteMessage_ok [OF assms(3)] show ?thesis
    using wellSent_whole [of "ms @ [m]" w'] by simp
next
  case failed
  with WriteMessage_full [OF failed assms(2)] assms(3) show ?thesis by simp
qed

lemma WriteMessage_sent_err:
  assumes "wellSent w" and "encodable m" and "WriteMessage Stream_Write w m = (w', Some e)"
  shows "wellSent w' \<and> sentMsgs w' = sentMsgs w"
  using assms(1)
proof (cases rule: wellSent_cases)
  case (whole ms)
  obtain n where "n < length (frame m)" "ws_sent w' = ws_sent w @ take n (frame m)" "ws_room w' = Some 0"
    using WriteMessage_stream_err [OF assms(3,2)] by blast
  moreover from this assms(2) have "partialFrame (take n (frame m))" by (auto simp: partialFrame_def)
  ultimately show ?thesis
    using whole wellSent_partial [of ms w' "take n (frame m)"] by simp
next
  case failed
  with WriteMessage_full [OF failed assms(2)] assms show ?thesis by auto
qed

section \<open>Interface: a connection as a log of what was sent on it\<close>

text \<open>
  What the session and the client rely on when they write: a write that reports no error has put the
  message on the wire behind the earlier ones, a write that reports an error has not completed any
  message, and closing sends nothing. \<open>writeAll\<close> is the loop with which both sides resend.
\<close>

primrec writeAll :: "('c \<Rightarrow> message \<Rightarrow> 'c \<times> 'e option) \<Rightarrow> 'c \<Rightarrow> message list \<Rightarrow> 'c \<times> 'e option" where
  "writeAll wr c [] = (c, None)"
| "writeAll wr c (m # ms) =
     (case wr c m of (c', Some e) \<Rightarrow> (c', Some e) | (c', None) \<Rightarrow> writeAll wr c' ms)"

locale conn_log =
  fixes writeData :: "'c \<Rightarrow> message \<Rightarrow> 'c \<times> 'e option"
    and writeControl :: "'c \<Rightarrow> message \<Rightarrow> 'c \<times> 'e option"
    and close :: "'c \<Rightarrow> 'c"
    and dataLog :: "'c \<Rightarrow> message list"
    and controlLog :: "'c \<Rightarrow> message list"
    and ok :: "'c \<Rightarrow> bool"
  assumes data_ok: "ok c \<Longrightarrow> encodable m \<Longrightarrow> isData m \<Longrightarrow> writeData c m = (c', None) \<Longrightarrow>
      ok c' \<and> dataLog c' = dataLog c @ [m] \<and> controlLog c' = controlLog c"
    and data_err: "ok c \<Longrightarrow> encodable m \<Longrightarrow> isData m \<Longrightarrow> writeData c m = (c', Some e) \<Longrightarrow>
      ok c' \<and> dataLog c' = dataLog c \<and> controlLog c' = controlLog c"
    and control_ok: "ok c \<Longrightarrow> encodable m \<Longrightarrow> \<not> isData m \<Longrightarrow> writeControl c m = (c', None) \<Longrightarrow>
      ok c' \<and> dataLog c' = dataLog c \<and> controlLog c' = controlLog c @ [m]"
    and control_err: "ok c \<Longrightarrow> encodable m \<Longrightarrow> \<not> isData m \<Longrightarrow> writeControl c m = (c', Some e) \<Longrightarrow>
      ok c' \<and> dataLog c' = dataLog c \<and> controlLog c' = controlLog c"
    and close_ok: "ok c \<Longrightarrow> ok (close c) \<and> dataLog (close c) = dataLog c \<and> controlLog (close c) = controlLog c"
begin

lemma writeAll_log:
  "ok c \<Longrightarrow> \<forall>m \<in> set ms. encodable m \<and> isData m \<Longrightarrow> writeAll writeData c ms = (c', e) \<Longrightarrow>
     \<exists>k \<le> length ms. (e = None \<longrightarrow> k = length ms) \<and> ok c' \<and> dataLog c' = dataLog c @ take k ms
       \<and> controlLog c' = controlLog c"
proof (induction ms arbitrary: c)
  case Nil
  then show ?case by simp
next
  case (Cons m ms)
  obtain c1 e1 where c1: "writeData c m = (c1, e1)" by fastforce
  show ?case
  proof (cases e1)
    case None
    with c1 Cons.prems have step: "ok c1 \<and> dataLog c1 = dataLog c @ [m] \<and> controlLog c1 = controlLog c"
      by (intro data_ok) simp_all
    obtain k where "k \<le> length ms" "e = None \<longrightarrow> k = length ms" "ok c'"
        "dataLog c' = dataLog c1 @ take k ms" "controlLog c' = controlLog c1"
      using Cons.IH [of c1] step Cons.prems c1 None by auto
    with step show ?thesis by (intro exI [of _ "Suc k"]) auto
  next
    case (Some x)
    with c1 Cons.prems have "ok c1 \<and> dataLog c1 = dataLog c \<and> controlLog c1 = controlLog c"
      using data_err [of c m c1 x] by simp
    with c1 Some Cons.prems show ?thesis by (intro exI [of _ 0]) auto
  qed
qed

lemma data_step:
  "ok c \<Longrightarrow> encodable m \<Longrightarrow> isData m \<Longrightarrow> writeData c m = (c', e) \<Longrightarrow>
     ok c' \<and> dataLog c' = dataLog c @ (if e = None then [m] else []) \<and> controlLog c' = controlLog c"
  by (cases e) (auto dest: data_ok data_err)

lemma control_step:
  "ok c \<Longrightarrow> encodable m \<Longrightarrow> \<not> isData m \<Longrightarrow> writeControl c m = (c', e) \<Longrightarrow>
     ok c' \<and> dataLog c' = dataLog c \<and> controlLog c' = controlLog c @ (if e = None then [m] else [])"
  by (cases e) (auto dest: control_ok control_err)

end

fun controlWriter :: "Conn \<Rightarrow> wstream" where
  "controlWriter (QuicConn c) = st_w (qc_control c)"
| "controlWriter (TcpConn c) = st_w (tc_conn c)"

fun dataWriter :: "Conn \<Rightarrow> wstream" where
  "dataWriter (QuicConn c) = st_w (qc_data c)"
| "dataWriter (TcpConn c) = st_w (tc_conn c)"

definition dataSent :: "Conn \<Rightarrow> message list" where
  "dataSent c = filter isData (sentMsgs (dataWriter c))"

definition controlSent :: "Conn \<Rightarrow> message list" where
  "controlSent c = filter (\<lambda>m. \<not> isData m) (sentMsgs (controlWriter c))"

definition conn_ok :: "Conn \<Rightarrow> bool" where
  "conn_ok c \<longleftrightarrow> wellSent (controlWriter c) \<and> wellSent (dataWriter c)"

lemma wellSent_close:
  assumes "wellSent w"
  shows "wellSent (w\<lparr>ws_room := Some 0\<rparr>)" and "sentMsgs (w\<lparr>ws_room := Some 0\<rparr>) = sentMsgs w"
  using assms by (auto simp: wellSent_def sentMsgs_def)

lemma Stream_WriteMessage_sent:
  assumes "Stream_WriteMessage st m = (st', e)" and "wellSent (st_w st)" and "encodable m"
  shows "wellSent (st_w st') \<and> sentMsgs (st_w st') = sentMsgs (st_w st) @ (if e = None then [m] else [])"
proof -
  obtain w where w: "WriteMessage Stream_Write (st_w st) m = (w, e)" "st_w st' = w"
    using assms(1) by (auto simp: Stream_WriteMessage_def split: prod.splits)
  with assms(2,3) show ?thesis
    using WriteMessage_sent_ok [of "st_w st" m w] WriteMessage_sent_err [of "st_w st" m w]
    by (cases e) auto
qed

lemmas conn_write_defs = quicConn_WriteControl_def quicConn_WriteData_def tcpConn_WriteControl_def
  tcpConn_WriteData_def
lemmas conn_view_defs = conn_ok_def dataSent_def controlSent_def

lemma Conn_WriteData_sent:
  assumes "Conn_WriteData c m = (c', e)" and "conn_ok c" and "encodable m" and "isData m"
  shows "conn_ok c' \<and> dataSent c' = dataSent c @ (if e = None then [m] else []) \<and> controlSent c' = controlSent c"
proof (cases c)
  case (QuicConn q)
  with assms show ?thesis
    by (auto simp: conn_write_defs conn_view_defs split: prod.splits dest!: Stream_WriteMessage_sent)
next
  case (TcpConn t)
  with assms show ?thesis
    by (auto simp: conn_write_defs conn_view_defs split: prod.splits dest!: Stream_WriteMessage_sent)
qed

lemma Conn_WriteControl_sent:
  assumes "Conn_WriteControl c m = (c', e)" and "conn_ok c" and "encodable m" and "\<not> isData m"
  shows "conn_ok c' \<and> dataSent c' = dataSent c \<and> controlSent c' = controlSent c @ (if e = None then [m] else [])"
proof (cases c)
  case (QuicConn q)
  with assms show ?thesis
    by (auto simp: conn_write_defs conn_view_defs split: prod.splits dest!: Stream_WriteMessage_sent)
next
  case (TcpConn t)
  with assms show ?thesis
    by (auto simp: conn_write_defs conn_view_defs split: prod.splits dest!: Stream_WriteMessage_sent)
qed

lemma Conn_Close_sent:
  assumes "conn_ok c"
  shows "conn_ok (Conn_Close c) \<and> dataSent (Conn_Close c) = dataSent c \<and> controlSent (Conn_Close c) = controlSent c"
  using assms
  by (cases c) (auto simp: conn_view_defs quicConn_Close_def tcpConn_Close_def Stream_Close_def wellSent_close)

interpretation wire: conn_log Conn_WriteData Conn_WriteControl Conn_Close dataSent controlSent conn_ok
  by unfold_locales
     (use Conn_WriteData_sent Conn_WriteControl_sent Conn_Close_sent in \<open>simp; fastforce\<close>)+

section \<open>The handshake, step by step\<close>

text \<open>A stream on which writes do not fail; \<open>sent\<close> and \<open>incoming\<close> are its two byte strings.\<close>

abbreviation sent :: "stream \<Rightarrow> bytes" where "sent st \<equiv> ws_sent (st_w st)"
abbreviation incoming :: "stream \<Rightarrow> bytes" where "incoming st \<equiv> pending (st_r st)"
abbreviation healthy :: "stream \<Rightarrow> bool" where "healthy st \<equiv> ws_room (st_w st) = None"

lemma Stream_ReadMessage_writer [simp]: "st_w (snd (Stream_ReadMessage st)) = st_w st"
  by (simp add: Stream_ReadMessage_def split: prod.splits)

lemma Stream_Read_writer: "Stream_ReadMessage st = (res, st') \<Longrightarrow> st_w st' = st_w st"
  using Stream_ReadMessage_writer [of st] by simp

lemma Stream_Read_frame:
  assumes "encodable m" and "incoming st = frame m @ rest"
  shows "\<exists>st'. Stream_ReadMessage st = (Inr m, st') \<and> incoming st' = rest \<and> st_w st' = st_w st"
proof -
  obtain r' where "ReadMessage (st_r st) = (Inr m, r')" "pending r' = rest"
    using assms by (metis ReadMessage_parseFrame parseFrame_frame fst_conv snd_conv)
  then show ?thesis by (simp add: Stream_ReadMessage_def)
qed

lemma Stream_Write_healthy:
  assumes "encodable m" and "healthy st"
  shows "\<exists>st'. Stream_WriteMessage st m = (st', None) \<and> sent st' = sent st @ frame m \<and> healthy st'
    \<and> st_r st' = st_r st"
proof -
  obtain a b where "frameChunks m = Inr (a, b)" using encodable_chunks assms(1) by blast
  then have "WriteMessage Stream_Write (st_w st) m =
      ((st_w st)\<lparr>ws_sent := ws_sent (st_w st) @ frame m\<rparr>, None)"
    using assms(2) by (simp add: WriteMessage_chunks writeChunks_def Stream_Write_def frameChunks_frame)
  then show ?thesis using assms(2) by (simp add: Stream_WriteMessage_def)
qed

lemma clientAuth_request:
  assumes "healthy st" and "clientAuth passkey (Some mat) st = (st', e)"
  shows "sent st' = sent st @ frame (AuthRequest (ComputeAuthToken passkey mat)) \<and> healthy st'"
proof -
  let ?m = "AuthRequest (ComputeAuthToken passkey mat)"
  obtain st1 where w: "Stream_WriteMessage st ?m = (st1, None)" "sent st1 = sent st @ frame ?m" "healthy st1"
    using Stream_Write_healthy [of ?m st] assms(1) by (auto simp: ComputeAuthToken_hmac)
  obtain res st2 where r: "Stream_ReadMessage st1 = (res, st2)" by fastforce
  have "st' = st2"
    using assms(2) w(1) r by (auto simp: clientAuth_def split: sum.splits message.splits if_splits)
  with w r Stream_Read_writer [OF r] show ?thesis by simp
qed

lemma clientAuth_verdict:
  assumes "healthy st" and "incoming st = frame (AuthResponse status) @ rest"
  shows "\<exists>st'. clientAuth passkey (Some mat) st =
      (st', if status = AuthOK then None else Some (ErrAuthRejected status)) \<and> incoming st' = rest"
proof -
  let ?m = "AuthRequest (ComputeAuthToken passkey mat)"
  obtain st1 where w: "Stream_WriteMessage st ?m = (st1, None)" "st_r st1 = st_r st"
    using Stream_Write_healthy [of ?m st] assms(1) by (auto simp: ComputeAuthToken_hmac)
  obtain st2 where "Stream_ReadMessage st1 = (Inr (AuthResponse status), st2)" "incoming st2 = rest"
    using Stream_Read_frame [of "AuthResponse status" st1 rest] assms(2) w(2) by auto
  with w show ?thesis by (simp add: clientAuth_def)
qed

lemma serverAuth_verdict:
  assumes "healthy st" and "incoming st = frame (AuthRequest tok) @ rest" and "length tok = 32"
  shows "\<exists>st'. serverAuth passkey (Some mat) st =
      (st', if tok = ComputeAuthToken passkey mat then None else Some ErrInvalidPasskey)
    \<and> sent st' = sent st @ frame (AuthResponse (if tok = ComputeAuthToken passkey mat then AuthOK else AuthFailed))
    \<and> incoming st' = rest \<and> healthy st'"
proof -
  let ?m = "AuthResponse (if tok = ComputeAuthToken passkey mat then AuthOK else AuthFailed)"
  obtain st1 where r: "Stream_ReadMessage st = (Inr (AuthRequest tok), st1)" "incoming st1 = rest"
      "st_w st1 = st_w st"
    using Stream_Read_frame [of "AuthRequest tok" st rest] assms(2,3) by auto
  obtain st2 where "Stream_WriteMessage st1 ?m = (st2, None)" "sent st2 = sent st1 @ frame ?m" "healthy st2"
      "st_r st2 = st_r st1"
    using Stream_Write_healthy [of ?m st1] r assms(1) by auto
  with r show ?thesis
    by (auto simp: serverAuth_def VerifyAuthToken_def hmac_Equal_iff)
qed

lemma clientSeqHeader_sends:
  assumes "healthy st"
  shows "\<exists>st'. clientSeqHeader q st = (st', None) \<and> sent st' = sent st @ frame (SequenceHeader q)
    \<and> healthy st' \<and> st_r st' = st_r st"
  using Stream_Write_healthy [of "SequenceHeader q" st] assms by (auto simp: clientSeqHeader_def)

lemma serverSeqHeader_reads:
  assumes "incoming st = frame (SequenceHeader q) @ rest"
  shows "\<exists>st'. serverSeqHeader st = (st', Inr q) \<and> incoming st' = rest \<and> st_w st' = st_w st"
  using Stream_Read_frame [of "SequenceHeader q" st rest] assms by (auto simp: serverSeqHeader_def)

lemma serverSeqHeader_writer: "serverSeqHeader st = (st', r) \<Longrightarrow> st_w st' = st_w st"
  by (auto simp: serverSeqHeader_def split: prod.splits sum.splits message.splits dest: Stream_Read_writer)

lemma tcp_client_sent:
  assumes "healthy st" and "performTCPAuth passkey q (Some mat) st = (st', r)"
  shows "\<exists>x. sent st' = sent st @ frame (AuthRequest (ComputeAuthToken passkey mat)) @ x"
proof -
  obtain st1 e where a: "clientAuth passkey (Some mat) st = (st1, e)" by fastforce
  note st1 = clientAuth_request [OF assms(1) a]
  then obtain st2 where "clientSeqHeader q st1 = (st2, None)" "sent st2 = sent st1 @ frame (SequenceHeader q)"
    using clientSeqHeader_sends [of st1 q] by blast
  with assms(2) a st1 show ?thesis by (cases e) (auto simp: performTCPAuth_def)
qed

text \<open>Complete runs of the two halves against a peer that sends what it should.\<close>

definition healthyStream :: "bytes \<Rightarrow> stream" where
  "healthyStream bs = \<lparr>st_r = \<lparr>segs = [bs], rerr = EOF\<rparr>, st_w = \<lparr>ws_sent = [], ws_room = None\<rparr>\<rparr>"

lemma healthyStream_simps [simp]:
  "healthy (healthyStream bs)" "sent (healthyStream bs) = []" "incoming (healthyStream bs) = bs"
  by (simp_all add: healthyStream_def pending_def)

lemma tcp_client_run:
  assumes "healthy st" and "incoming st = frame (AuthResponse AuthOK) @ rest"
  shows "\<exists>st'. performTCPAuth passkey q (Some mat) st = (st', Inr (newTCPConn st' 0)) \<and> incoming st' = rest
    \<and> sent st' = sent st @ frame (AuthRequest (ComputeAuthToken passkey mat)) @ frame (SequenceHeader q)"
proof -
  obtain st1 where st1: "clientAuth passkey (Some mat) st = (st1, None)" "incoming st1 = rest"
    using clientAuth_verdict [OF assms, of passkey mat] by auto
  with clientAuth_request [OF assms(1) st1(1)] clientSeqHeader_sends [of st1 q]
  show ?thesis by (auto simp: performTCPAuth_def)
qed

lemma tcp_server_run:
  assumes "healthy st"
    and "incoming st = frame (AuthRequest (ComputeAuthToken passkey mat)) @ frame (SequenceHeader q) @ rest"
  shows "\<exists>st'. tcpListener_authenticate passkey (Some mat) st = (st', Inr (newTCPConn st' q))
    \<and> sent st' = sent st @ frame (AuthResponse AuthOK) \<and> incoming st' = rest"
proof -
  obtain st1 where "serverAuth passkey (Some mat) st = (st1, None)" "incoming st1 = frame (SequenceHeader q) @ rest"
      "sent st1 = sent st @ frame (AuthResponse AuthOK)"
    using serverAuth_verdict [OF assms(1,2), of passkey mat] by (auto simp: ComputeAuthToken_hmac)
  with serverSeqHeader_reads [of st1 q rest] show ?thesis by (auto simp: tcpListener_authenticate_def)
qed

lemma quic_client_run:
  assumes "healthy cs" and "healthy ds" and "incoming cs = frame (AuthResponse AuthOK) @ rest"
  shows "\<exists>cs' ds'. performQUICAuth passkey q (Some mat) (Some cs) (Some ds) =
      ((Some cs', Some ds'), Inr \<lparr>qc_control = cs', qc_data = ds', qc_lastClientSeq = 0\<rparr>)
    \<and> sent cs' = sent cs @ frame (AuthRequest (ComputeAuthToken passkey mat))
    \<and> sent ds' = sent ds @ frame (SequenceHeader q)"
proof -
  obtain cs1 where cs1: "clientAuth passkey (Some mat) cs = (cs1, None)"
    using clientAuth_verdict [OF assms(1,3), of passkey mat] by auto
  with clientAuth_request [OF assms(1) cs1] clientSeqHeader_sends [OF assms(2), of q]
  show ?thesis by (auto simp: performQUICAuth_def)
qed

lemma quic_server_run:
  assumes "healthy cs" and "incoming cs = frame (AuthRequest (ComputeAuthToken passkey mat)) @ rest2"
    and "incoming ds = frame (SequenceHeader q) @ rest"
  shows "\<exists>cs' ds'. quicListener_authenticate passkey (Some mat) (Some cs) (Some ds) =
      ((Some cs', Some ds'), Inr \<lparr>qc_control = cs', qc_data = ds', qc_lastClientSeq = q\<rparr>)
    \<and> sent cs' = sent cs @ frame (AuthResponse AuthOK) \<and> incoming ds' = rest"
proof -
  obtain cs1 where "serverAuth passkey (Some mat) cs = (cs1, None)"
      "sent cs1 = sent cs @ frame (AuthResponse AuthOK)"
    using serverAuth_verdict [OF assms(1,2), of passkey mat] by (auto simp: ComputeAuthToken_hmac)
  with serverSeqHeader_reads [OF assms(3)] show ?thesis by (auto simp: quicListener_authenticate_def)
qed

section \<open>Properties of the handshake\<close>

text \<open>C14: The TCP handshake agrees. Run client and session against each other over streams on
  which writes succeed, each reading what the other wrote (and possibly more). With tokens that match
  under the shared exporter material, both sides end up with a connection and the session learns
  the client's last received sequence number; otherwise the session refuses with an invalid
  passkey and the client sees the rejection.\<close>

theorem tcp_handshake:
  assumes "healthy c0" and "sent c0 = []" and "healthy s0" and "sent s0 = []"
    and "performTCPAuth passkey q (Some mat) c0 = (c1, rc)"
    and "tcpListener_authenticate passkey' (Some mat) s0 = (s1, rs)"
    and "incoming c0 = sent s1 @ more_s" and "incoming s0 = sent c1 @ more_c"
  shows "if ComputeAuthToken passkey mat = ComputeAuthToken passkey' mat
    then rc = Inr (newTCPConn c1 0) \<and> rs = Inr (newTCPConn s1 q)
      \<and> incoming c1 = more_s \<and> incoming s1 = more_c
    else rc = Inl (ErrAuthRejected AuthFailed) \<and> rs = Inl ErrInvalidPasskey"
proof -
  let ?tok = "ComputeAuthToken passkey mat" and ?exp = "ComputeAuthToken passkey' mat"
  let ?verdict = "if ?tok = ?exp then AuthOK else AuthFailed"
  obtain x where x: "sent c1 = frame (AuthRequest ?tok) @ x"
    using tcp_client_sent [OF assms(1,5)] assms(2) by auto
  obtain s2 where s2: "serverAuth passkey' (Some mat) s0 = (s2, if ?tok = ?exp then None else Some ErrInvalidPasskey)"
      "sent s2 = frame (AuthResponse ?verdict)" "incoming s2 = x @ more_c"
    using serverAuth_verdict [of s0 ?tok "x @ more_c" passkey' mat] assms x
    by (auto simp: ComputeAuthToken_hmac)
  obtain s3 r3 where s3: "serverSeqHeader s2 = (s3, r3)" by fastforce
  have "sent s1 = frame (AuthResponse ?verdict)"
    using assms(6) s2 s3 serverSeqHeader_writer [OF s3]
    by (auto simp: tcpListener_authenticate_def split: if_splits sum.splits)
  then obtain c2 where c2: "clientAuth passkey (Some mat) c0 =
      (c2, if ?verdict = AuthOK then None else Some (ErrAuthRejected ?verdict))" "incoming c2 = more_s"
    using clientAuth_verdict [of c0 ?verdict more_s passkey mat] assms by auto
  note sent_c2 = clientAuth_request [OF assms(1) c2(1)]
  show ?thesis
  proof (cases "?tok = ?exp")
    case True
    obtain c3 where c3: "clientSeqHeader q c2 = (c3, None)" "sent c3 = sent c2 @ frame (SequenceHeader q)"
        "st_r c3 = st_r c2"
      using clientSeqHeader_sends [of c2 q] sent_c2 by auto
    have c1: "c1 = c3" "rc = Inr (newTCPConn c3 0)"
      using assms(5) c2 c3 True by (auto simp: performTCPAuth_def)
    then have "incoming s2 = frame (SequenceHeader q) @ more_c"
      using s2 x sent_c2 c3 assms(2) by simp
    then obtain s4 where "serverSeqHeader s2 = (s4, Inr q)" "incoming s4 = more_c"
      using serverSeqHeader_reads by blast
    with s2 c1 c2 c3 True assms(6) show ?thesis by (auto simp: tcpListener_authenticate_def)
  next
    case False
    with s2 c2 assms(5,6) show ?thesis
      by (auto simp: tcpListener_authenticate_def performTCPAuth_def AuthOK_def AuthFailed_def)
  qed
qed

theorem tcp_handshake_witness:
  "\<exists>c1 s1. performTCPAuth [1] 5 (Some [2]) (healthyStream (frame (AuthResponse AuthOK))) = (c1, Inr (newTCPConn c1 0))
     \<and> tcpListener_authenticate [1] (Some [2])
         (healthyStream (frame (AuthRequest (ComputeAuthToken [1] [2])) @ frame (SequenceHeader 5))) =
       (s1, Inr (newTCPConn s1 5)) \<and> incoming s1 = []"
proof -
  let ?c0 = "healthyStream (frame (AuthResponse AuthOK))"
  let ?s0 = "healthyStream (frame (AuthRequest (ComputeAuthToken [1] [2])) @ frame (SequenceHeader 5))"
  obtain c1 rc where c1: "performTCPAuth [1] 5 (Some [2]) ?c0 = (c1, rc)"
      "sent c1 = frame (AuthRequest (ComputeAuthToken [1] [2])) @ frame (SequenceHeader 5)"
    using tcp_client_run [of ?c0 "[]" "[1]" 5 "[2]"] by auto
  obtain s1 rs where s1: "tcpListener_authenticate [1] (Some [2]) ?s0 = (s1, rs)"
      "sent s1 = frame (AuthResponse AuthOK)"
    using tcp_server_run [of ?s0 "[1]" "[2]" 5 "[]"] by auto
  show ?thesis
    using tcp_handshake [OF _ _ _ _ c1(1) s1(1), of "[]" "[]"] c1 s1 by auto
qed

text \<open>C15: The same agreement over QUIC, where the verdict travels on the control stream and the
  client's last received sequence number on the data stream.\<close>

theorem quic_handshake:
  assumes "healthy cc" and "sent cc = []" and "healthy cd" and "sent cd = []"
    and "healthy sc" and "sent sc = []"
    and "performQUICAuth passkey q (Some mat) (Some cc) (Some cd) = ((Some cc1, Some cd1), rc)"
    and "quicListener_authenticate passkey' (Some mat) (Some sc) (Some sd) = ((Some sc1, Some sd1), rs)"
    and "incoming cc = sent sc1 @ more_s" and "incoming sc = sent cc1 @ more_c" and "incoming sd = sent cd1 @ more_d"
  shows "if ComputeAuthToken passkey mat = ComputeAuthToken passkey' mat
    then rc = Inr \<lparr>qc_control = cc1, qc_data = cd1, qc_lastClientSeq = 0\<rparr>
      \<and> rs = Inr \<lparr>qc_control = sc1, qc_data = sd1, qc_lastClientSeq = q\<rparr> \<and> incoming sd1 = more_d
    else rc = Inl (ErrAuthRejected AuthFailed) \<and> rs = Inl ErrInvalidPasskey"
proof -
  let ?tok = "ComputeAuthToken passkey mat" and ?exp = "ComputeAuthToken passkey' mat"
  let ?verdict = "if ?tok = ?exp then AuthOK else AuthFailed"
  obtain c2 e2 where a: "clientAuth passkey (Some mat) cc = (c2, e2)" by fastforce
  have "sent cc1 = frame (AuthRequest ?tok)"
    using clientAuth_request [OF assms(1) a] assms(2,7) a
    by (auto simp: performQUICAuth_def split: option.splits prod.splits)
  then obtain s2 where s2: "serverAuth passkey' (Some mat) sc = (s2, if ?tok = ?exp then None else Some ErrInvalidPasskey)"
      "sent s2 = frame (AuthResponse ?verdict)"
    using serverAuth_verdict [of sc ?tok more_c passkey' mat] assms by (auto simp: ComputeAuthToken_hmac)
  have sc1: "sc1 = s2"
    using assms(8) s2(1)
    by (auto simp: quicListener_authenticate_def split: if_splits prod.splits sum.splits)
  obtain c3 where c3: "clientAuth passkey (Some mat) cc =
      (c3, if ?verdict = AuthOK then None else Some (ErrAuthRejected ?verdict))"
    using clientAuth_verdict [of cc ?verdict more_s passkey mat] assms s2 sc1 by auto
  show ?thesis
  proof (cases "?tok = ?exp")
    case True
    obtain d2 where d2: "clientSeqHeader q cd = (d2, None)" "sent d2 = frame (SequenceHeader q)"
      using clientSeqHeader_sends [of cd q] assms(3,4) by auto
    have cd1: "cd1 = d2" "rc = Inr \<lparr>qc_control = cc1, qc_data = cd1, qc_lastClientSeq = 0\<rparr>"
      using assms(7) c3 d2 True by (auto simp: performQUICAuth_def)
    obtain s4 where "serverSeqHeader sd = (s4, Inr q)" "incoming s4 = more_d"
      using serverSeqHeader_reads [of sd q more_d] assms(11) cd1 d2 by auto
    with s2 sc1 cd1 True assms(8) show ?thesis by (auto simp: quicListener_authenticate_def)
  next
    case False
    with s2 c3 assms(7,8) show ?thesis
      by (auto simp: quicListener_authenticate_def performQUICAuth_def AuthOK_def AuthFailed_def)
  qed
qed

theorem quic_handshake_witness:
  "\<exists>sc1 sd1. quicListener_authenticate [1] (Some [2])
       (Some (healthyStream (frame (AuthRequest (ComputeAuthToken [1] [2])))))
       (Some (healthyStream (frame (SequenceHeader 5)))) =
     ((Some sc1, Some sd1), Inr \<lparr>qc_control = sc1, qc_data = sd1, qc_lastClientSeq = 5\<rparr>)"
proof -
  let ?cc = "healthyStream (frame (AuthResponse AuthOK))" and ?cd = "healthyStream []"
  let ?sc = "healthyStream (frame (AuthRequest (ComputeAuthToken [1] [2])))"
  let ?sd = "healthyStream (frame (SequenceHeader 5))"
  obtain cc1 cd1 rc where c: "performQUICAuth [1] 5 (Some [2]) (Some ?cc) (Some ?cd) = ((Some cc1, Some cd1), rc)"
      "sent cc1 = frame (AuthRequest (ComputeAuthToken [1] [2]))" "sent cd1 = frame (SequenceHeader 5)"
    using quic_client_run [of ?cc ?cd "[]" "[1]" 5 "[2]"] by auto
  obtain sc1 sd1 rs where s: "quicListener_authenticate [1] (Some [2]) (Some ?sc) (Some ?sd) = ((Some sc1, Some sd1), rs)"
      "sent sc1 = frame (AuthResponse AuthOK)"
    using quic_server_run [of ?sc "[1]" "[2]" "[]" ?sd 5 "[]"] by auto
  show ?thesis
    using quic_handshake [OF _ _ _ _ _ _ c(1) s(1), of "[]" "[]" "[]"] c s by auto
qed

section \<open>The demultiplexer\<close>

text \<open>
  A run of a started TCP connection: turns of \<open>demuxLoop\<close>, reads by the two reader goroutines
  (collecting what they got), writes and closing, in any order.
\<close>

fun gotten :: "'e + message \<Rightarrow> message list" where
  "gotten (Inr m) = [m]"
| "gotten (Inl e) = []"

abbreviation received :: "('e + message) list \<Rightarrow> message list" where
  "received rs \<equiv> concat (map gotten rs)"

lemma gotten_map_sum [simp]: "gotten (map_sum f id r) = gotten r"
  by (cases r) auto

inductive tcp_run :: "tcpConn \<Rightarrow> message list \<Rightarrow> message list \<Rightarrow> tcpConn \<Rightarrow> bool" for c0 where
  start: "tcp_run c0 [] [] c0"
| demux: "tcp_run c0 gc gd c \<Longrightarrow> demux_step c c' \<Longrightarrow> tcp_run c0 gc gd c'"
| read_control: "tcp_run c0 gc gd c \<Longrightarrow> tcpConn_ReadControl c = Some (r, c') \<Longrightarrow> tcp_run c0 (gc @ gotten r) gd c'"
| read_data: "tcp_run c0 gc gd c \<Longrightarrow> tcpConn_ReadData c = Some (r, c') \<Longrightarrow> tcp_run c0 gc (gd @ gotten r) c'"
| write_control: "tcp_run c0 gc gd c \<Longrightarrow> tcpConn_WriteControl c m = (c', e) \<Longrightarrow> tcp_run c0 gc gd c'"
| write_data: "tcp_run c0 gc gd c \<Longrightarrow> tcpConn_WriteData c m = (c', e) \<Longrightarrow> tcp_run c0 gc gd c'"
| closing: "tcp_run c0 gc gd c \<Longrightarrow> tcp_run c0 gc gd (tcpConn_Close c)"

text \<open>
  What is yet to come through the stream, and the invariant of a run: per kind of message, what was
  read, what is queued and what is to come make up a prefix of what the peer sent, and all of it
  while the connection is not closed.
\<close>

definition toCome :: "tcpConn \<Rightarrow> message list" where
  "toCome c = (if tc_chClosed c then [] else parseAll (incoming (tc_conn c)))"

definition demux_inv :: "message list \<Rightarrow> message list \<Rightarrow> message list \<Rightarrow> tcpConn \<Rightarrow> bool" where
  "demux_inv allMsgs gc gd c \<longleftrightarrow> tc_demuxStarted c \<and>
     (\<exists>lost. (\<not> tc_done c \<longrightarrow> lost = []) \<and> (tc_done c \<longrightarrow> incoming (tc_conn c) = []) \<and>
       filter isData allMsgs = gd @ received (tc_dataCh c) @ filter isData (toCome c @ lost) \<and>
       filter (\<lambda>m. \<not> isData m) allMsgs = gc @ received (tc_controlCh c) @ filter (\<lambda>m. \<not> isData m) (toCome c @ lost))"

lemma parseFrame_eof:
  "(\<exists>e'. fst (parseFrame bs e) = Inl e') \<longleftrightarrow> (\<exists>e'. fst (parseFrame bs EOF) = Inl e')"
  "fst (parseFrame bs e) = Inr m \<Longrightarrow> parseFrame bs EOF = (Inr m, snd (parseFrame bs e))"
  by (auto simp: parseFrame_def Let_def split: if_splits)

lemma Stream_Read_parseAll:
  assumes "Stream_ReadMessage st = (res, st')"
  shows "case res of Inl e \<Rightarrow> parseAll (incoming st) = []
    | Inr m \<Rightarrow> parseAll (incoming st) = m # parseAll (incoming st')"
proof -
  obtain r' where r': "ReadMessage (st_r st) = (fst (parseFrame (incoming st) (rerr (st_r st))), r')"
      "pending r' = snd (parseFrame (incoming st) (rerr (st_r st)))"
    by (rule ReadMessage_parseFrame)
  then have res: "res = fst (parseFrame (incoming st) (rerr (st_r st)))"
      "incoming st' = snd (parseFrame (incoming st) (rerr (st_r st)))"
    using assms by (auto simp: Stream_ReadMessage_def)
  show ?thesis
  proof (cases res)
    case (Inl e)
    with res have "\<exists>e'. fst (parseFrame (incoming st) EOF) = Inl e'" using parseFrame_eof(1) [of "incoming st" "rerr (st_r st)"] by metis
    with Inl show ?thesis by (subst parseAll.simps) (auto split: prod.splits)
  next
    case (Inr m)
    with res have "parseFrame (incoming st) EOF = (Inr m, incoming st')"
      using parseFrame_eof(2) [of "incoming st" "rerr (st_r st)" m] by simp
    with Inr show ?thesis using parseAll.simps [of "incoming st"] by simp
  qed
qed

lemma Stream_Read_nothing:
  assumes "incoming st = []" and "Stream_ReadMessage st = (res, st')"
  shows "incoming st' = [] \<and> (\<exists>e. res = Inl e)"
proof -
  obtain r' where "ReadMessage (st_r st) = (fst (parseFrame (incoming st) (rerr (st_r st))), r')"
      "pending r' = snd (parseFrame (incoming st) (rerr (st_r st)))"
    by (rule ReadMessage_parseFrame)
  with assms show ?thesis by (auto simp: Stream_ReadMessage_def parseFrame_def)
qed

lemma received_offer [simp]: "received (offer ch (Inl e)) = received ch"
  by (simp add: offer_def)

lemma demux_step_inv:
  assumes "demux_step c c'" and "demux_inv allMsgs gc gd c"
  shows "demux_inv allMsgs gc gd c'"
  using assms
proof cases
  case (read_error e st)
  with assms(2) Stream_Read_parseAll [of "tc_conn c" "Inl e" st] Stream_Read_nothing [of "tc_conn c" "Inl e" st]
  show ?thesis by (auto simp: demux_inv_def toCome_def)
next
  case (to_data m st)
  with assms(2) Stream_Read_parseAll [of "tc_conn c" "Inr m" st] Stream_Read_nothing [of "tc_conn c" "Inr m" st]
  show ?thesis by (auto simp: demux_inv_def toCome_def)
next
  case (to_control m st)
  with assms(2) Stream_Read_parseAll [of "tc_conn c" "Inr m" st] Stream_Read_nothing [of "tc_conn c" "Inr m" st]
  show ?thesis by (auto simp: demux_inv_def toCome_def)
next
  case (gave_up m st)
  with assms(2) Stream_Read_nothing [of "tc_conn c" "Inr m" st] show ?thesis by (auto simp: demux_inv_def)
qed

lemma read_inv:
  assumes "demux_inv allMsgs gc gd c"
  shows "tcpConn_ReadControl c = Some (r, c') \<Longrightarrow> demux_inv allMsgs (gc @ gotten r) gd c'"
    and "tcpConn_ReadData c = Some (r, c') \<Longrightarrow> demux_inv allMsgs gc (gd @ gotten r) c'"
proof -
  have "tc_demuxStarted c" using assms by (simp add: demux_inv_def)
  moreover have "toCome (c\<lparr>tc_controlCh := xs\<rparr>) = toCome c" "toCome (c\<lparr>tc_dataCh := xs\<rparr>) = toCome c" for xs
    by (simp_all add: toCome_def)
  ultimately show
      "tcpConn_ReadControl c = Some (r, c') \<Longrightarrow> demux_inv allMsgs (gc @ gotten r) gd c'"
      "tcpConn_ReadData c = Some (r, c') \<Longrightarrow> demux_inv allMsgs gc (gd @ gotten r) c'"
    using assms
    by (auto simp: demux_inv_def tcpConn_ReadControl_def tcpConn_ReadData_def split: list.splits if_splits)
qed

lemma write_reader:
  "Stream_WriteMessage st m = (st', e) \<Longrightarrow> st_r st' = st_r st"
  by (auto simp: Stream_WriteMessage_def split: prod.splits)

lemma write_inv:
  assumes "demux_inv allMsgs gc gd c" and "Stream_WriteMessage (tc_conn c) m = (st, e)"
  shows "demux_inv allMsgs gc gd (c\<lparr>tc_conn := st\<rparr>)"
proof -
  have "toCome (c\<lparr>tc_conn := st\<rparr>) = toCome c" using write_reader [OF assms(2)] by (simp add: toCome_def)
  with assms(1) write_reader [OF assms(2)] show ?thesis by (simp add: demux_inv_def)
qed

lemma close_inv:
  assumes "demux_inv allMsgs gc gd c"
  shows "demux_inv allMsgs gc gd (tcpConn_Close c)"
proof (cases "tc_done c")
  case True
  with assms show ?thesis by (simp add: tcpConn_Close_def)
next
  case False
  define c' where "c' = tcpConn_Close c"
  have c': "tc_demuxStarted c' = tc_demuxStarted c" "tc_done c'" "tc_dataCh c' = tc_dataCh c"
      "tc_controlCh c' = tc_controlCh c" "incoming (tc_conn c') = []" "toCome c' = []"
    using False by (simp_all add: c'_def tcpConn_Close_def toCome_def Stream_Close_def pending_def)
  from assms False have "tc_demuxStarted c"
      "filter isData allMsgs = gd @ received (tc_dataCh c) @ filter isData (toCome c)"
      "filter (\<lambda>m. \<not> isData m) allMsgs = gc @ received (tc_controlCh c) @ filter (\<lambda>m. \<not> isData m) (toCome c)"
    by (auto simp: demux_inv_def)
  with c' show ?thesis unfolding c'_def [symmetric] demux_inv_def
    by (intro conjI exI [of _ "toCome c"]) simp_all
qed

lemma tcp_run_inv:
  assumes "tcp_run c0 gc gd c" and "demux_inv allMsgs [] [] c0"
  shows "demux_inv allMsgs gc gd c"
  using assms
  by induction (auto simp: conn_write_defs split: prod.splits intro: demux_step_inv read_inv write_inv close_inv)

lemma started_inv: "demux_inv (parseAll (incoming st)) [] [] (tcpConn_StartDemux (newTCPConn st q))"
  by (simp add: demux_inv_def tcpConn_StartDemux_def newTCPConn_def toCome_def)

text \<open>C17: Demultiplexing loses and reorders nothing. Whatever the interleaving of demux turns, reads, writes
  and closing, the reader of the data channel has got a prefix of the data messages the peer sent, in order,
  and the reader of the control channel a prefix of the other messages; as long as the connection is not closed
  locally, what is missing is still queued or still on the stream.\<close>

theorem demux_routes:
  assumes "tcp_run (tcpConn_StartDemux (newTCPConn st q)) gc gd c"
  shows "\<exists>restD restC. filter isData (parseAll (incoming st)) = gd @ received (tc_dataCh c) @ restD
    \<and> filter (\<lambda>m. \<not> isData m) (parseAll (incoming st)) = gc @ received (tc_controlCh c) @ restC
    \<and> (\<not> tc_done c \<longrightarrow> restD = filter isData (toCome c) \<and> restC = filter (\<lambda>m. \<not> isData m) (toCome c))"
  using tcp_run_inv [OF assms started_inv] unfolding demux_inv_def by fastforce

theorem demux_routes_witness:
  "\<exists>c. tcp_run (tcpConn_StartDemux (newTCPConn (healthyStream (frame (Data 1 [104]) @ frame (Heartbeat 7))) 0))
       [Heartbeat 7] [Data 1 [104]] c
     \<and> filter isData (parseAll (frame (Data 1 [104]) @ frame (Heartbeat 7))) = Data 1 [104] # received (tc_dataCh c)"
proof -
  let ?s0 = "healthyStream (frame (Data 1 [104]) @ frame (Heartbeat 7))"
  define c0 where "c0 = tcpConn_StartDemux (newTCPConn ?s0 0)"
  note step_defs = c0_def tcpConn_StartDemux_def newTCPConn_def isData_def chanCap_def
  obtain s1 where s1: "Stream_ReadMessage ?s0 = (Inr (Data 1 [104]), s1)" "incoming s1 = frame (Heartbeat 7)"
    using Stream_Read_frame [of "Data 1 [104]" ?s0 "frame (Heartbeat 7)"] by (auto simp: size_defs)
  obtain s2 where s2: "Stream_ReadMessage s1 = (Inr (Heartbeat 7), s2)" "incoming s2 = []"
    using Stream_Read_frame [of "Heartbeat 7" s1 "[]"] s1 by auto
  define c1 where "c1 = c0\<lparr>tc_conn := s1, tc_dataCh := [Inr (Data 1 [104])]\<rparr>"
  define c2 where "c2 = c1\<lparr>tc_conn := s2, tc_controlCh := [Inr (Heartbeat 7)]\<rparr>"
  have "demux_step c0 c1"
    using demux_step.to_data [of c0 "Data 1 [104]" s1] s1 by (simp add: step_defs c1_def)
  moreover have "demux_step c1 c2"
    using demux_step.to_control [of c1 "Heartbeat 7" s2] s2 by (simp add: step_defs c1_def c2_def)
  ultimately have "tcp_run c0 [] [] c2" by (meson tcp_run.start tcp_run.demux)
  then have "tcp_run c0 [Heartbeat 7] [] (c2\<lparr>tc_controlCh := []\<rparr>)"
    by (drule_tac tcp_run.read_control) (auto simp: step_defs c1_def c2_def tcpConn_ReadControl_def)
  then have "tcp_run c0 [Heartbeat 7] [Data 1 [104]] (c2\<lparr>tc_controlCh := [], tc_dataCh := []\<rparr>)"
    by (drule_tac tcp_run.read_data) (auto simp: step_defs c1_def c2_def tcpConn_ReadData_def)
  note run = this [unfolded c0_def]
  from demux_routes [OF run] s2(2) show ?thesis
    by (intro exI [of _ "c2\<lparr>tc_controlCh := [], tc_dataCh := []\<rparr>"] conjI run)
       (auto simp: toCome_def step_defs c1_def c2_def)
qed

text \<open>C16: Anyone who can connect can stop the session: both accept loops decode the first frame before
  any authentication, and a TerminalInfo frame whose length field is 65534 or 65535 (and that carries as many
  bytes) makes the decoder panic, which no goroutine recovers from.\<close>

theorem unauthenticated_crash:
  assumes "incoming st = put_be 4 (of_nat (length p) :: u32) @ MsgTerminalInfo # p @ rest"
    and "length p \<le> MaxPayloadSize" and "2 \<le> length p" and "65534 \<le> unat (get_be (take 2 p) :: u16)"
    and "2 + unat (get_be (take 2 p) :: u16) \<le> length p"
  shows "tcpAcceptLoop_turn passkey material st = Crashed
    \<and> quicAcceptLoop_turn passkey material (Some st) data = Crashed"
proof -
  obtain r' where "ReadMessage (st_r st) = (fst (parseFrame (incoming st) (rerr (st_r st))), r')"
    by (rule ReadMessage_parseFrame)
  moreover have "DecodePayload MsgTerminalInfo p = Inl PanicSliceBounds" using assms(3-5) by (simp add: decode_panics)
  ultimately obtain st' where "Stream_ReadMessage st = (Inl PanicSliceBounds, st')"
    using assms(1) parseFrame_raw [OF assms(2), of MsgTerminalInfo rest]
    by (simp add: Stream_ReadMessage_def)
  then show ?thesis
    by (simp add: tcpAcceptLoop_turn_def quicAcceptLoop_turn_def tcpListener_authenticate_def
        quicListener_authenticate_def serverAuth_def)
qed

theorem unauthenticated_crash_witness:
  "\<exists>bs. tcpAcceptLoop_turn [1] None (healthyStream bs) = Crashed"
proof -
  let ?p = "put_be 2 (65534 :: u16) @ replicate 65534 (120 :: byte)"
  show ?thesis
    using unauthenticated_crash [of "healthyStream (put_be 4 (of_nat (length ?p) :: u32) @ MsgTerminalInfo # ?p)" ?p "[]" "[1]" None None]
    by (auto simp: MaxPayloadSize_def)
qed

section \<open>What the accept loops deliver\<close>

lemma serverAuth_accepts:
  assumes "serverAuth passkey material st = (st', None)"
  shows "\<exists>mat. material = Some mat \<and> parseAll (incoming st) = AuthRequest (ComputeAuthToken passkey mat) # parseAll (incoming st')"
    and "wellSent (st_w st) \<Longrightarrow> wellSent (st_w st') \<and> sentMsgs (st_w st') = sentMsgs (st_w st) @ [AuthResponse AuthOK]"
proof -
  obtain tok st1 mat where r: "Stream_ReadMessage st = (Inr (AuthRequest tok), st1)" "material = Some mat"
      "VerifyAuthToken passkey mat tok" "Stream_WriteMessage st1 (AuthResponse AuthOK) = (st', None)"
    using assms by (auto simp: serverAuth_def split: prod.splits sum.splits message.splits option.splits if_splits)
  show "\<exists>mat. material = Some mat \<and> parseAll (incoming st) = AuthRequest (ComputeAuthToken passkey mat) # parseAll (incoming st')"
    using Stream_Read_parseAll [OF r(1)] r(2,3) write_reader [OF r(4)] by (simp add: VerifyAuthToken_def hmac_Equal_iff)
  assume "wellSent (st_w st)"
  then show "wellSent (st_w st') \<and> sentMsgs (st_w st') = sentMsgs (st_w st) @ [AuthResponse AuthOK]"
    using Stream_WriteMessage_sent [OF r(4)] Stream_Read_writer [OF r(1)] by simp
qed

lemma serverSeqHeader_accepts:
  assumes "serverSeqHeader st = (st', Inr q)"
  shows "parseAll (incoming st) = SequenceHeader q # parseAll (incoming st')" and "st_w st' = st_w st"
proof -
  have r: "Stream_ReadMessage st = (Inr (SequenceHeader q), st')"
    using assms by (auto simp: serverSeqHeader_def split: prod.splits sum.splits message.splits)
  show "parseAll (incoming st) = SequenceHeader q # parseAll (incoming st')" "st_w st' = st_w st"
    using Stream_Read_parseAll [OF r] Stream_Read_writer [OF r] by simp_all
qed

lemma acceptOutcome_Delivered: "acceptOutcome r = Delivered c \<longleftrightarrow> r = Inr c"
  by (cases r rule: acceptOutcome.cases) auto

lemma tcp_delivered:
  assumes "tcpAcceptLoop_turn passkey material st = Delivered c"
  shows "\<exists>st1 st2 q. serverAuth passkey material st = (st1, None) \<and> serverSeqHeader st1 = (st2, Inr q) \<and> c = TcpConn (newTCPConn st2 q)"
  using assms
  by (auto simp: tcpAcceptLoop_turn_def acceptOutcome_Delivered tcpListener_authenticate_def
      split: prod.splits option.splits sum.splits)

lemma quic_delivered:
  assumes "quicAcceptLoop_turn passkey material control data = Delivered c"
  shows "\<exists>cs ds cs1 ds1 q. control = Some cs \<and> data = Some ds \<and> serverAuth passkey material cs = (cs1, None)
    \<and> serverSeqHeader ds = (ds1, Inr q) \<and> c = QuicConn \<lparr>qc_control = cs1, qc_data = ds1, qc_lastClientSeq = q\<rparr>"
  using assms
  by (auto simp: quicAcceptLoop_turn_def acceptOutcome_Delivered quicListener_authenticate_def
      split: prod.splits option.splits sum.splits)

text \<open>C13: Only a holder of the passkey is let in. When an accept loop delivers a connection, the peer's first
  message was an authentication request with the token for this session's passkey and this TLS session's exporter
  material, and the sequence number the connection reports is the one the peer sent.\<close>

theorem delivered_is_authenticated:
  "(tcpAcceptLoop_turn passkey material st = Delivered c \<longrightarrow>
      (\<exists>mat more. material = Some mat \<and> parseAll (incoming st) =
         AuthRequest (ComputeAuthToken passkey mat) # SequenceHeader (Conn_LastClientSeq c) # more))
    \<and> (quicAcceptLoop_turn passkey material (Some cs) (Some ds) = Delivered c \<longrightarrow>
      (\<exists>mat more moreD. material = Some mat \<and> parseAll (incoming cs) = AuthRequest (ComputeAuthToken passkey mat) # more
         \<and> parseAll (incoming ds) = SequenceHeader (Conn_LastClientSeq c) # moreD))"
  using tcp_delivered [of passkey material st c] quic_delivered [of passkey material "Some cs" "Some ds" c]
  by (fastforce simp: newTCPConn_def dest: serverAuth_accepts(1) serverSeqHeader_accepts(1))

theorem delivered_is_authenticated_witness:
  "\<exists>c more. tcpAcceptLoop_turn [1] (Some [2])
       (healthyStream (frame (AuthRequest (ComputeAuthToken [1] [2])) @ frame (SequenceHeader 5))) = Delivered c
     \<and> parseAll (frame (AuthRequest (ComputeAuthToken [1] [2])) @ frame (SequenceHeader 5)) =
       AuthRequest (ComputeAuthToken [1] [2]) # SequenceHeader (Conn_LastClientSeq c) # more"
proof -
  let ?st = "healthyStream (frame (AuthRequest (ComputeAuthToken [1] [2])) @ frame (SequenceHeader 5))"
  obtain st' where "tcpListener_authenticate [1] (Some [2]) ?st = (st', Inr (newTCPConn st' 5))"
    using tcp_server_run [of ?st "[1]" "[2]" 5 "[]"] by auto
  then have "tcpAcceptLoop_turn [1] (Some [2]) ?st = Delivered (TcpConn (newTCPConn st' 5))"
    by (simp add: tcpAcceptLoop_turn_def)
  with delivered_is_authenticated [of "[1]" "Some [2]" ?st "TcpConn (newTCPConn st' 5)"] show ?thesis by auto
qed

end
