(* ===== verification/Sender.thy ===== *)
theory Sender
  imports Catchup Coalesce Transport
begin

text \<open>
  What the two ends of a session share as senders of data: the session and the client both number
  the batches their coalescer hands them 1, 2, ..., store each in a catchup buffer and write it to
  the current connection. \<open>sender_inv\<close> ties the buffer and the counter to the history of batches;
  \<open>carries\<close> says which contiguous part of the history a connection carries.
\<close>

definition toData :: "Entry \<Rightarrow> message" where
  "toData e = Data (EntrySeq e) (EntryPayload e)"

lemma isData_toData [simp]: "isData (toData e)"
  by (simp add: isData_def toData_def)

definition sendable :: "bytes \<Rightarrow> bool" where
  "sendable p \<longleftrightarrow> p \<noteq> [] \<and> DataHeaderSize + length p \<le> MaxPayloadSize"

lemma sendable_small: "p \<noteq> [] \<Longrightarrow> length p \<le> 2 * Threshold + 2 \<Longrightarrow> sendable p"
  by (simp add: sendable_def Threshold_def size_defs)

definition sender_inv :: "int \<Rightarrow> bytes list \<Rightarrow> Buffer \<Rightarrow> u64 \<Rightarrow> bool" where
  "sender_inv mx ps b q \<longleftrightarrow> storeAll Buffer_Store (Buffer_New mx) (numbered ps) = Some b
     \<and> q = of_nat (length ps) \<and> (\<forall>p \<in> set ps. sendable p)"

lemma sender_New [simp]: "sender_inv mx [] (Buffer_New mx) 0"
  by (simp add: sender_inv_def)

lemma sender_store:
  assumes "sender_inv mx ps b q" and "sendable p"
  shows "\<exists>b'. Buffer_Store b (q + 1) p = Some b' \<and> sender_inv mx (ps @ [p]) b' (q + 1)"
proof -
  have b: "storeAll Buffer_Store (Buffer_New mx) (numbered ps) = Some b" "q + 1 = of_nat (Suc (length ps))"
    using assms(1) by (simp_all add: sender_inv_def)
  then have "buffer_inv b" using catchup_ring.storeAll_limits [OF buffer_inv_New] by blast
  then obtain b' where "Buffer_Store b (q + 1) p = Some b'" using catchup_ring.store_drops_oldest by metis
  with assms b show ?thesis by (auto simp: sender_inv_def numbered_snoc storeAll_snoc add.commute)
qed

lemma sender_buffer: "sender_inv mx ps b q \<Longrightarrow> buffer_inv b"
  using catchup_ring.storeAll_limits [OF buffer_inv_New] by (auto simp: sender_inv_def)

text \<open>More than the catchup buffer is dimensioned for.\<close>

definition exceeds :: "int \<Rightarrow> Entry list \<Rightarrow> bool" where
  "exceeds mx es \<longleftrightarrow> b_maxSize (Buffer_New mx) < entryBytes es \<or> b_capacity (Buffer_New mx) < int (length es)"

lemma entryBytes_append [simp]: "entryBytes (xs @ ys) = entryBytes xs + entryBytes ys"
  by (simp add: entryBytes_def)

lemma entryBytes_nonneg [simp]: "0 \<le> entryBytes xs"
  by (induction xs) (simp_all add: entryBytes_def)

lemma exceeds_append: "exceeds mx xs \<Longrightarrow> exceeds mx (xs @ ys)"
  unfolding exceeds_def using entryBytes_nonneg [of ys] by (auto simp del: entryBytes_nonneg)

lemma sender_replay:
  assumes "sender_inv mx ps b q" and "length ps < 2 ^ 64"
  shows "\<exists>k. Buffer_ReplaySince b a = Some (drop k (numbered ps)) \<and> unat a \<le> k
    \<and> (unat a \<le> length ps \<longrightarrow> k = unat a \<or> exceeds mx (drop (unat a) (numbered ps)))"
proof -
  obtain k where k: "Buffer_ReplaySince b a = Some (drop (max k (unat a)) (numbered ps))"
      "unat a \<le> length ps \<and> entryBytes (drop (unat a) (numbered ps)) \<le> b_maxSize (Buffer_New mx)
       \<and> int (length ps - unat a) \<le> b_capacity (Buffer_New mx) \<longrightarrow> k \<le> unat a"
    using history_replay [of ps mx b a] assms by (auto simp: sender_inv_def)
  from k(2) have "unat a \<le> length ps \<longrightarrow> max k (unat a) = unat a \<or> exceeds mx (drop (unat a) (numbered ps))"
    unfolding exceeds_def by (auto simp: not_less max_def)
  with k(1) show ?thesis by (intro exI [of _ "max k (unat a)"]) simp
qed

section \<open>The part of the history each connection carries\<close>

text \<open>
  A connection is viewed as the data messages sent on it, the number \<open>a\<close> after which its peer asked
  the replay to start, and the number of batches there were when it was attached. \<open>known\<close>: \<open>a\<close> is 0
  or was sent on an earlier connection, as it is with a peer that reports what it received. \<open>part\<close>:
  connection \<open>i\<close> carries the \<open>n\<close> batches after the first \<open>k\<close>; a live connection is up to date; and
  unless nothing was sent, a known \<open>a\<close> is where it starts, or else the batches that were waiting
  exceeded what the catchup buffer holds.
\<close>

type_synonym conn_view = "message list \<times> u64 \<times> nat"

abbreviation v_data :: "conn_view \<Rightarrow> message list" where "v_data v \<equiv> fst v"
abbreviation v_after :: "conn_view \<Rightarrow> u64" where "v_after v \<equiv> fst (snd v)"
abbreviation v_mark :: "conn_view \<Rightarrow> nat" where "v_mark v \<equiv> snd (snd v)"

definition known :: "conn_view list \<Rightarrow> nat \<Rightarrow> bool" where
  "known vs i \<longleftrightarrow> v_after (vs ! i) = 0 \<or> (\<exists>j<i. \<exists>p. Data (v_after (vs ! i)) p \<in> set (v_data (vs ! j)))"

definition waiting :: "bytes list \<Rightarrow> nat \<Rightarrow> nat \<Rightarrow> Entry list" where
  "waiting ps a L = drop a (take L (numbered ps))"

definition follows :: "int \<Rightarrow> bytes list \<Rightarrow> nat \<Rightarrow> nat \<Rightarrow> nat \<Rightarrow> bool" where
  "follows mx ps a L k \<longleftrightarrow> a \<le> k \<and> (k = a \<or> exceeds mx (waiting ps a L))"

definition part :: "int \<Rightarrow> bytes list \<Rightarrow> conn_view list \<Rightarrow> bool \<Rightarrow> nat \<Rightarrow> nat \<Rightarrow> nat \<Rightarrow> bool" where
  "part mx ps vs live i k n \<longleftrightarrow>
     k + n \<le> length ps \<and> k \<le> v_mark (vs ! i) \<and> v_mark (vs ! i) \<le> length ps
     \<and> v_data (vs ! i) = map toData (take n (drop k (numbered ps)))
     \<and> (live \<longrightarrow> k + n = length ps)
     \<and> (known vs i \<longrightarrow> \<not> live \<and> n = 0 \<or> follows mx ps (unat (v_after (vs ! i))) (v_mark (vs ! i)) k)"

definition parts :: "int \<Rightarrow> bytes list \<Rightarrow> conn_view list \<Rightarrow> bool \<Rightarrow> bool" where
  "parts mx ps vs live \<longleftrightarrow> (\<forall>i<length vs. \<exists>k n. part mx ps vs (live \<and> Suc i = length vs) i k n)"

lemma parts_Nil [simp]: "parts mx ps [] live"
  by (simp add: parts_def)

lemma numbered_sendable:
  assumes "\<forall>p \<in> set ps. sendable p" and "e \<in> set (numbered ps)"
  shows "encodable (toData e) \<and> isData (toData e)"
proof -
  obtain i where "i < length ps" "e = Entry (of_nat (Suc i)) (ps ! i)"
    using assms(2) by (auto simp: in_set_conv_nth)
  with assms(1) show ?thesis by (simp add: toData_def isData_def sendable_def)
qed

lemma parts_not_live: "parts mx ps vs live \<Longrightarrow> parts mx ps vs False"
  by (fastforce simp: parts_def part_def)

lemma waiting_extend: "L \<le> length ps \<Longrightarrow> waiting (ps @ [p]) a L = waiting ps a L"
  by (simp add: waiting_def numbered_snoc)

lemma part_extend: "part mx ps vs False i k n \<Longrightarrow> part mx (ps @ [p]) vs False i k n"
  by (auto simp: part_def numbered_snoc follows_def waiting_extend)

lemma parts_extend: "parts mx ps vs False \<Longrightarrow> parts mx (ps @ [p]) vs False"
  unfolding parts_def using part_extend by (metis (full_types))

lemma known_snoc: "i < length vs \<Longrightarrow> known (vs @ [v]) i \<longleftrightarrow> known vs i"
proof -
  assume i: "i < length vs"
  then have "(vs @ [v]) ! j = vs ! j" if "j \<le> i" for j using that by (simp add: nth_append)
  then show ?thesis unfolding known_def by (metis less_imp_le order_refl)
qed

lemma part_snoc: "i < length vs \<Longrightarrow> part mx ps (vs @ [v]) live i k n \<longleftrightarrow> part mx ps vs live i k n"
  by (simp add: part_def known_snoc nth_append)

lemma parts_snoc:
  "parts mx ps (vs @ [v]) live \<longleftrightarrow> parts mx ps vs False \<and> (\<exists>k n. part mx ps (vs @ [v]) live (length vs) k n)"
proof
  assume whole: "parts mx ps (vs @ [v]) live"
  have "\<exists>k n. part mx ps vs False i k n" if "i < length vs" for i
  proof -
    obtain k n where "part mx ps (vs @ [v]) (live \<and> Suc i = length (vs @ [v])) i k n"
      using whole \<open>i < length vs\<close> unfolding parts_def by (metis length_append_singleton less_SucI)
    with that have "part mx ps vs False i k n" by (simp add: part_snoc)
    then show ?thesis by blast
  qed
  moreover have "\<exists>k n. part mx ps (vs @ [v]) live (length vs) k n"
    using whole [unfolded parts_def, rule_format, of "length vs"] by simp
  ultimately show "parts mx ps vs False \<and> (\<exists>k n. part mx ps (vs @ [v]) live (length vs) k n)"
    by (simp add: parts_def)
next
  assume split: "parts mx ps vs False \<and> (\<exists>k n. part mx ps (vs @ [v]) live (length vs) k n)"
  have "\<exists>k n. part mx ps (vs @ [v]) (live \<and> i = length vs) i k n" if "i < Suc (length vs)" for i
  proof (cases "i = length vs")
    case False
    with that split have "\<exists>k n. part mx ps vs False i k n" by (simp add: parts_def)
    with False that show ?thesis using part_snoc [of i vs] by auto
  qed (use split in simp)
  then show "parts mx ps (vs @ [v]) live" by (simp add: parts_def)
qed

lemma known_last: "known (vs @ [(d, a, L)]) (length vs) \<longleftrightarrow> a = 0 \<or> (\<exists>v \<in> set vs. \<exists>p. Data a p \<in> set (v_data v))"
  by (simp add: known_def nth_append) (metis in_set_conv_nth)

text \<open>What the sender does to the views: a write on the live connection, and a new connection.\<close>

lemma parts_grow:
  assumes "parts mx ps (vs @ [(d, a, L)]) True"
  shows "parts mx (ps @ [p]) (vs @ [(d @ [Data (of_nat (Suc (length ps))) p], a, L)]) True"
proof -
  from assms obtain k n where kn: "part mx ps (vs @ [(d, a, L)]) True (length vs) k n" and vs: "parts mx ps vs False"
    by (auto simp: parts_snoc)
  have "part mx (ps @ [p]) (vs @ [(d @ [Data (of_nat (Suc (length ps))) p], a, L)]) True (length vs) k (Suc n)"
    using kn by (auto simp: part_def known_last numbered_snoc toData_def follows_def waiting_extend)
  with vs show ?thesis by (auto simp: parts_snoc intro: parts_extend)
qed

lemma parts_new_empty: "parts mx ps vs live \<Longrightarrow> parts mx ps (vs @ [([], a, length ps)]) False"
  using part_def [of mx ps "vs @ [([], a, length ps)]" False "length vs" 0 0]
  by (auto simp: parts_snoc intro: parts_not_live)

lemma known_bounded:
  assumes "parts mx ps vs False" and "known (vs @ [(d, a, L)]) (length vs)" and "length ps < 2 ^ 64"
  shows "unat a \<le> length ps"
proof (cases "a = 0")
  case False
  then obtain j p where j: "j < length vs" "Data a p \<in> set (v_data (vs ! j))"
    using assms(2) by (simp add: known_last) (metis in_set_conv_nth)
  then obtain k n where "v_data (vs ! j) = map toData (take n (drop k (numbered ps)))"
    using assms(1) by (auto simp: parts_def part_def)
  with j obtain e where "e \<in> set (numbered ps)" "toData e = Data a p"
    by (fastforce dest: in_set_takeD in_set_dropD)
  then obtain i where "i < length ps" "a = of_nat (Suc i)"
    by (auto simp: in_set_conv_nth toData_def)
  with assms(3) show ?thesis by (simp add: unat_of_nat del: of_nat_Suc)
qed simp

text \<open>The first \<open>j\<close> batches of a replay that starts after the first \<open>k\<close>, all of them if \<open>up\<close>.\<close>

lemma parts_replayed:
  assumes "parts mx ps vs live" and "length ps < 2 ^ 64" and "unat a \<le> k" and "j \<le> length ps - k"
    and "unat a \<le> length ps \<longrightarrow> k = unat a \<or> exceeds mx (drop (unat a) (numbered ps))"
    and "up \<longrightarrow> j = length ps - k"
  shows "parts mx ps (vs @ [(map toData (take j (drop k (numbered ps))), a, length ps)]) up"
proof -
  let ?v = "(map toData (take j (drop k (numbered ps))), a, length ps)"
  have vs: "parts mx ps vs False" using assms(1) by (rule parts_not_live)
  have "follows mx ps (unat a) (length ps) (min k (length ps))" if "known (vs @ [?v]) (length vs)"
  proof -
    have "unat a \<le> length ps" using known_bounded [OF vs that assms(2)] .
    with assms(3,5) show ?thesis by (auto simp: follows_def waiting_def min_def)
  qed
  then have "part mx ps (vs @ [?v]) up (length vs) (min k (length ps)) j"
    using assms(4,6) by (cases "k \<le> length ps") (auto simp: part_def min_def)
  with vs show ?thesis by (auto simp: parts_snoc)
qed

end
