(* ===== verification/Pty.thy ===== *)
theory Pty
  imports Transport "HOL-Library.Sublist"
begin

text \<open>
  The pseudo-terminal of a session, \<^verbatim>\<open>internal/session/pty.go\<close>: the command line and environment of
  the shell, the check of the client's TERM value, and the window size. The package
  \<^verbatim>\<open>github.com/creack/pty\<close> and the kernel behind it are not under src/: starting a process is a
  parameter, and a terminal is what was written to it (with the point at which writes fail), its
  size, and whether the size ioctls fail.
\<close>

record pty =
  pt_in :: wstream
  pt_rows :: u16
  pt_cols :: u16
  pt_sizeErr :: bool

datatype pty_error = ErrStartPTY | ErrGetSize | ErrSetSize

definition fallbackTerm :: string where "fallbackTerm = ''xterm-256color''"

text \<open>
  Go ranges over the runes of the string; the bytes of a multi-byte rune and invalid bytes are all
  above 0x7e, as is the rune itself, so the check is the same on bytes.
\<close>

primrec sanitizeLoop :: "string \<Rightarrow> bool" where
  "sanitizeLoop [] = True"
| "sanitizeLoop (c # cs) =
     (if of_char c < (0x20 :: nat) \<or> c = CHR ''='' \<or> of_char c > (0x7e :: nat) then False else sanitizeLoop cs)"

definition sanitizeTerm :: "string \<Rightarrow> string" where
  "sanitizeTerm t =
     (if t = [] \<or> length t > 128 then fallbackTerm
      else if \<not> sanitizeLoop t then fallbackTerm else t)"

text \<open>\<^verbatim>\<open>filepath.Base\<close> on Unix.\<close>

definition filepath_Base :: "string \<Rightarrow> string" where
  "filepath_Base path =
     (if path = [] then ''.''
      else let p = rev (dropWhile (\<lambda>c. c = CHR ''/'') (rev path));
               b = rev (takeWhile (\<lambda>c. c \<noteq> CHR ''/'') (rev p))
           in if b = [] then ''/'' else b)"

record Cmd =
  cmd_Path :: string
  cmd_Args :: "string list"
  cmd_Env :: "string list"

primrec envWithoutTerm :: "string list \<Rightarrow> string list \<Rightarrow> string list" where
  "envWithoutTerm env [] = env"
| "envWithoutTerm env (e # es) = envWithoutTerm (if \<not> prefix ''TERM='' e then env @ [e] else env) es"

definition shellCommand :: "string \<Rightarrow> string list \<Rightarrow> string \<Rightarrow> string \<Rightarrow> Cmd" where
  "shellCommand SHELL environ sessionID t =
     (let shell = (if SHELL = [] then ''/bin/sh'' else SHELL);
          env = envWithoutTerm [] environ
      in \<lparr>cmd_Path = shell, cmd_Args = [CHR ''-'' # filepath_Base shell],
          cmd_Env = (env @ [''TERM='' @ sanitizeTerm t]) @ [''GOET_SESSION='' @ sessionID]\<rparr>)"

definition spawnPTY ::
    "(Cmd \<Rightarrow> u16 \<Rightarrow> u16 \<Rightarrow> pty option) \<Rightarrow> string \<Rightarrow> string list \<Rightarrow> string \<Rightarrow> string \<Rightarrow> pty_error + pty \<times> Cmd" where
  "spawnPTY StartWithSize SHELL environ sessionID t =
     (let cmd = shellCommand SHELL environ sessionID t in
      case StartWithSize cmd 24 80 of
        None \<Rightarrow> Inl ErrStartPTY
      | Some ptmx \<Rightarrow> Inr (ptmx, cmd))"

definition resizePTY :: "pty \<Rightarrow> u16 \<Rightarrow> u16 \<Rightarrow> pty \<times> pty_error option" where
  "resizePTY p rows cols =
     (if pt_sizeErr p then (p, Some ErrSetSize) else (p\<lparr>pt_rows := rows, pt_cols := cols\<rparr>, None))"

definition bouncePTYSize :: "pty \<Rightarrow> pty \<times> pty_error option" where
  "bouncePTYSize p =
     (if pt_sizeErr p then (p, Some ErrGetSize)
      else if pt_rows p \<le> 1 then (p, None)
      else (p\<lparr>pt_rows := pt_rows p - 1\<rparr>, None))"

section \<open>Properties\<close>

lemma sanitizeLoop_all:
  "sanitizeLoop t \<longleftrightarrow> (\<forall>c \<in> set t. 0x20 \<le> (of_char c :: nat) \<and> of_char c \<le> (0x7e :: nat) \<and> c \<noteq> CHR ''='')"
  by (induction t) auto

lemma envWithoutTerm_filter: "envWithoutTerm env es = env @ filter (\<lambda>e. \<not> prefix ''TERM='' e) es"
  by (induction es arbitrary: env) auto

text \<open>C40: The TERM value that reaches the shell's environment is harmless whatever the client sends: it
  is not empty, has at most 128 bytes, all of them printable ASCII and none of them an equals sign; and a value
  that already is like that is used as it stands.\<close>

theorem sanitizeTerm_safe:
  "(\<forall>c \<in> set (sanitizeTerm t). 0x20 \<le> (of_char c :: nat) \<and> of_char c \<le> (0x7e :: nat) \<and> c \<noteq> CHR ''='')
    \<and> sanitizeTerm t \<noteq> [] \<and> length (sanitizeTerm t) \<le> 128
    \<and> (sanitizeTerm t = t \<longleftrightarrow> t \<noteq> [] \<and> length t \<le> 128 \<and> sanitizeLoop t)"
proof -
  have fb: "sanitizeLoop fallbackTerm" "fallbackTerm \<noteq> []" "length fallbackTerm \<le> 128"
    by (simp_all add: fallbackTerm_def)
  consider "sanitizeTerm t = t" "t \<noteq> []" "length t \<le> 128" "sanitizeLoop t"
    | "sanitizeTerm t = fallbackTerm" "t = [] \<or> length t > 128 \<or> \<not> sanitizeLoop t"
    by (cases "t = [] \<or> length t > 128 \<or> \<not> sanitizeLoop t") (auto simp: sanitizeTerm_def)
  then show ?thesis
  proof cases
    case 1
    then show ?thesis using sanitizeLoop_all [of t] by simp
  next
    case 2
    then have "t \<noteq> fallbackTerm" using fb by (metis not_le)
    with 2 show ?thesis using fb sanitizeLoop_all [of fallbackTerm] by (metis not_le)
  qed
qed

theorem sanitizeTerm_safe_witness:
  "sanitizeTerm ''a=b'' = ''xterm-256color'' \<and> sanitizeTerm ''tmux'' = ''tmux''"
  using sanitizeTerm_safe [of "''tmux''"] by (simp add: sanitizeTerm_def fallbackTerm_def)

text \<open>The shell is started with exactly one TERM variable, the checked value of the client's; every
  other inherited variable is passed on in order, and the session id comes last.\<close>

theorem shell_environment:
  "filter (prefix ''TERM='') (cmd_Env (shellCommand SHELL environ sid t)) = [''TERM='' @ sanitizeTerm t]
    \<and> filter (\<lambda>e. \<not> prefix ''TERM='' e) (cmd_Env (shellCommand SHELL environ sid t)) =
        filter (\<lambda>e. \<not> prefix ''TERM='' e) environ @ [''GOET_SESSION='' @ sid]"
  by (simp add: shellCommand_def Let_def envWithoutTerm_filter filter_filter)

text \<open>Attaching a client always changes the size of the terminal (unless it has a single row or the
  ioctl fails), so that full-screen programs redraw: bouncing takes off one row, without wrap-around, and
  leaves the columns alone; the client's resize then sets its size.\<close>

theorem bounce_changes_size:
  assumes "\<not> pt_sizeErr p" and "bouncePTYSize p = (p1, e1)" and "resizePTY p1 rows cols = (p2, e2)"
  shows "e1 = None \<and> e2 = None \<and> (pt_rows p2, pt_cols p2) = (rows, cols) \<and> pt_cols p1 = pt_cols p
    \<and> unat (pt_rows p1) = (if unat (pt_rows p) \<le> 1 then unat (pt_rows p) else unat (pt_rows p) - 1)"
proof (cases "pt_rows p \<le> 1")
  case True
  then have "unat (pt_rows p) \<le> 1" by (simp add: word_le_nat_alt)
  with True assms show ?thesis by (auto simp: bouncePTYSize_def resizePTY_def)
next
  case False
  then have "1 < unat (pt_rows p)" by (simp add: word_le_nat_alt)
  then have "unat (pt_rows p - 1) = unat (pt_rows p) - 1" by (simp add: unat_sub word_le_nat_alt)
  with False \<open>1 < unat (pt_rows p)\<close> assms show ?thesis by (auto simp: bouncePTYSize_def resizePTY_def)
qed

theorem bounce_changes_size_witness:
  "\<exists>p1 p2. bouncePTYSize \<lparr>pt_in = \<lparr>ws_sent = [], ws_room = None\<rparr>, pt_rows = 24, pt_cols = 80, pt_sizeErr = False\<rparr> = (p1, None)
     \<and> unat (pt_rows p1) = 23 \<and> resizePTY p1 24 80 = (p2, None)"
proof -
  let ?p = "\<lparr>pt_in = \<lparr>ws_sent = [], ws_room = None\<rparr>, pt_rows = 24, pt_cols = 80, pt_sizeErr = False\<rparr>"
  obtain p1 e1 where p1: "bouncePTYSize ?p = (p1, e1)" by fastforce
  obtain p2 e2 where p2: "resizePTY p1 24 80 = (p2, e2)" by fastforce
  show ?thesis using bounce_changes_size [OF _ p1 p2] p1 p2 by auto
qed

end
