(* ===== verification/Session.thy ===== *)
theory Session
  imports Sender Pty
begin

text \<open>
  The session, the server-side half of a reconnectable terminal: \<^verbatim>\<open>internal/session/session.go\<close>.
  Connections live in a store, in the order in which they were attached, and a pointer to one is its
  index: old connections stay reachable for their reader goroutines, which is why stream events
  carry the connection they came from. The handlers are functions on the session record; the select
  loop of \<open>Run\<close> with the goroutines around it is the step relation of the theory
  \<open>Session_Run\<close>. Logging is left out.
\<close>

section \<open>State\<close>

definition ptyReadBufSize :: nat where "ptyReadBufSize = 32 * 1024"
definition session_recvTimeout :: int where "session_recvTimeout = 30 * 1000000000"

record Config =
  cfg_SessionID :: string
  cfg_ReplaySize :: int

record Session =
  s_cfg :: Config
  s_ptmx :: "pty option"
  s_cmd :: "Cmd option"
  s_buf :: Buffer
  s_coal :: Coalescer
  s_store :: "Conn list"
  s_conn :: "nat option"
  s_sendSeq :: u64
  s_recvSeq :: u64

text \<open>\<open>New\<close>, with the coalescer that \<open>Run\<close> creates before its loop starts.\<close>

definition Session_New :: "Config \<Rightarrow> instant \<Rightarrow> Session" where
  "Session_New cfg now =
     \<lparr>s_cfg = cfg, s_ptmx = None, s_cmd = None, s_buf = Buffer_New (cfg_ReplaySize cfg),
      s_coal = Coalescer_New now, s_store = [], s_conn = None, s_sendSeq = 0, s_recvSeq = 0\<rparr>"

datatype stream_name = ControlStream | DataStream

record streamEvent =
  ev_conn :: nat
  ev_stream :: stream_name
  ev_res :: "conn_error + message"

datatype session_error =
    ErrClientShutdown
  | ErrSpawnPTY pty_error
  | ErrShellExited
  | ErrContext
  | ErrPanic

text \<open>
  How a handler ends: the loop goes on, \<open>Run\<close> returns an error, the goroutine panics, or it waits
  forever.
\<close>

datatype outcome = Continue | Return session_error | Panicked | Blocked

text \<open>What the shell is started with: \<^verbatim>\<open>pty.StartWithSize\<close>, \<^verbatim>\<open>$SHELL\<close> and \<^verbatim>\<open>os.Environ()\<close>.\<close>

record spawn_env =
  se_StartWithSize :: "Cmd \<Rightarrow> u16 \<Rightarrow> u16 \<Rightarrow> pty option"
  se_SHELL :: string
  se_environ :: "string list"

section \<open>Operations\<close>

text \<open>The current connection, and storing it back after a method call changed it.\<close>

definition theConn :: "Session \<Rightarrow> nat \<Rightarrow> Conn" where
  "theConn s i = s_store s ! i"

definition putConn :: "Session \<Rightarrow> nat \<Rightarrow> Conn \<Rightarrow> Session" where
  "putConn s i c = s\<lparr>s_store := (s_store s)[i := c]\<rparr>"

definition closeConn :: "Session \<Rightarrow> Session" where
  "closeConn s =
     (case s_conn s of
        None \<Rightarrow> s
      | Some i \<Rightarrow> (putConn s i (Conn_Close (theConn s i)))\<lparr>s_conn := None\<rparr>)"

text \<open>\<open>None\<close>: the ring buffer panicked.\<close>

definition flushCoalesced :: "Session \<Rightarrow> Session option" where
  "flushCoalesced s =
     (case Coalescer_Flush (s_coal s) of
        (coal, None) \<Rightarrow> Some (s\<lparr>s_coal := coal\<rparr>)
      | (coal, Some data) \<Rightarrow>
          (let s1 = s\<lparr>s_coal := coal, s_sendSeq := s_sendSeq s + 1\<rparr> in
           case Buffer_Store (s_buf s1) (s_sendSeq s1) data of
             None \<Rightarrow> None
           | Some buf \<Rightarrow>
               (let s2 = s1\<lparr>s_buf := buf\<rparr> in
                case s_conn s2 of
                  None \<Rightarrow> Some s2
                | Some i \<Rightarrow>
                    (case Conn_WriteData (theConn s2 i) (Data (s_sendSeq s2) data) of
                       (c, None) \<Rightarrow> Some (putConn s2 i c)
                     | (c, Some e) \<Rightarrow> Some (closeConn (putConn s2 i c))))))"

definition handleStreamEvent :: "Session \<Rightarrow> streamEvent \<Rightarrow> Session \<times> session_error option" where
  "handleStreamEvent s ev =
     (if Some (ev_conn ev) \<noteq> s_conn s then (s, None)
      else case ev_res ev of
        Inl e \<Rightarrow> (closeConn s, None)
      | Inr msg \<Rightarrow>
          (case msg of
             Resize rows cols \<Rightarrow>
               (case s_ptmx s of
                  Some p \<Rightarrow> (s\<lparr>s_ptmx := Some (fst (resizePTY p rows cols))\<rparr>, None)
                | None \<Rightarrow> (s, None))
           | Data q payload \<Rightarrow>
               (case s_ptmx s of
                  Some p \<Rightarrow>
                    (case Stream_Write (pt_in p) payload of
                       (w, Some e) \<Rightarrow> (s\<lparr>s_ptmx := Some (p\<lparr>pt_in := w\<rparr>)\<rparr>, None)
                     | (w, None) \<Rightarrow> (s\<lparr>s_ptmx := Some (p\<lparr>pt_in := w\<rparr>), s_recvSeq := q\<rparr>, None))
                | None \<Rightarrow> (s\<lparr>s_recvSeq := q\<rparr>, None))
           | Shutdown \<Rightarrow> (s, Some ErrClientShutdown)
           | _ \<Rightarrow> (s, None)))"

text \<open>
  The parts of \<open>handleNewConn\<close> after the connection \<open>i\<close> was made current: awaiting TerminalInfo
  (a decoder panic is one of this goroutine), starting the shell once, and replaying.
\<close>

definition awaitTerminalInfo :: "Session \<Rightarrow> nat \<Rightarrow> Session \<times> (outcome + string)" where
  "awaitTerminalInfo s i =
     (case Conn_ReadControl (theConn s i) of
        None \<Rightarrow> (s, Inl Blocked)
      | Some (res, c) \<Rightarrow>
          (let s1 = putConn s i c in
           case res of
             Inl (ProtoErr PanicSliceBounds) \<Rightarrow> (s1, Inl Panicked)
           | Inl e \<Rightarrow> (closeConn s1, Inl Continue)
           | Inr (TerminalInfo t) \<Rightarrow> (s1, Inr t)
           | Inr m \<Rightarrow> (closeConn s1, Inl Continue)))"

definition ensurePTY :: "spawn_env \<Rightarrow> Session \<Rightarrow> string \<Rightarrow> Session \<times> pty_error option" where
  "ensurePTY env s t =
     (case s_ptmx s of
        Some p \<Rightarrow> (s, None)
      | None \<Rightarrow>
          (case spawnPTY (se_StartWithSize env) (se_SHELL env) (se_environ env) (cfg_SessionID (s_cfg s)) t of
             Inl e \<Rightarrow> (closeConn s, Some e)
           | Inr (ptmx, cmd) \<Rightarrow> (s\<lparr>s_ptmx := Some ptmx, s_cmd := Some cmd\<rparr>, None)))"

definition replayTo :: "Session \<Rightarrow> nat \<Rightarrow> u64 \<Rightarrow> Session \<times> outcome" where
  "replayTo s i lastClientSeq =
     (case Buffer_ReplaySince (s_buf s) lastClientSeq of
        None \<Rightarrow> (s, Panicked)
      | Some entries \<Rightarrow>
          (case writeAll Conn_WriteData (theConn s i) (map toData entries) of
             (c, Some e) \<Rightarrow> (closeConn (putConn s i c), Continue)
           | (c, None) \<Rightarrow>
               (let s1 = putConn s i c;
                    s2 = (case s_ptmx s1 of
                            None \<Rightarrow> s1
                          | Some p \<Rightarrow> s1\<lparr>s_ptmx := Some (fst (bouncePTYSize p))\<rparr>)
                in (putConn s2 i (Conn_StartDemux (theConn s2 i)), Continue))))"

definition handleNewConn :: "spawn_env \<Rightarrow> Session \<Rightarrow> Conn \<Rightarrow> Session \<times> outcome" where
  "handleNewConn env s newConn =
     (let s1 = closeConn s in
      case flushCoalesced s1 of
        None \<Rightarrow> (s1, Panicked)
      | Some s2 \<Rightarrow>
          (let i = length (s_store s2);
               s3 = s2\<lparr>s_store := s_store s2 @ [newConn], s_conn := Some i\<rparr>
           in case Conn_WriteControl newConn (SequenceHeader (s_recvSeq s3)) of
                (c, Some e) \<Rightarrow> (closeConn (putConn s3 i c), Continue)
              | (c, None) \<Rightarrow>
                  (case awaitTerminalInfo (putConn s3 i c) i of
                     (s4, Inl out) \<Rightarrow> (s4, out)
                   | (s4, Inr t) \<Rightarrow>
                       (case ensurePTY env s4 t of
                          (s5, Some e) \<Rightarrow> (s5, Return (ErrSpawnPTY e))
                        | (s5, None) \<Rightarrow> replayTo s5 i (Conn_LastClientSeq newConn)))))"

definition gracefulShutdown :: "Session \<Rightarrow> Session option" where
  "gracefulShutdown s =
     (case flushCoalesced s of
        None \<Rightarrow> None
      | Some s1 \<Rightarrow>
          (case s_conn s1 of
             None \<Rightarrow> Some s1
           | Some i \<Rightarrow> Some (putConn s1 i (fst (Conn_WriteControl (theConn s1 i) Shutdown)))))"

text \<open>The heartbeat case of the select loop, at time \<open>now\<close>, with the wall clock in milliseconds.\<close>

definition session_heartbeat :: "instant \<Rightarrow> u64 \<Rightarrow> instant \<Rightarrow> Session \<Rightarrow> Session" where
  "session_heartbeat now unixMilli lastRecv s =
     (case s_conn s of
        None \<Rightarrow> s
      | Some i \<Rightarrow>
          (case Conn_WriteControl (theConn s i) (Heartbeat unixMilli) of
             (c, Some e) \<Rightarrow> closeConn (putConn s i c)
           | (c, None) \<Rightarrow>
               (if now - lastRecv > session_recvTimeout then closeConn (putConn s i c) else putConn s i c)))"

section \<open>Invariant\<close>

text \<open>
  For a session that has flushed the batches \<open>ps\<close> and attached its connections when there were \<open>Ls\<close>
  of them. \<open>sess_base\<close> also holds while a new connection is being set up, before its replay.
\<close>

fun conn_closed :: "Conn \<Rightarrow> bool" where
  "conn_closed (QuicConn c) \<longleftrightarrow> ws_room (st_w (qc_control c)) = Some 0 \<and> ws_room (st_w (qc_data c)) = Some 0"
| "conn_closed (TcpConn c) \<longleftrightarrow> tc_done c"

definition views :: "Conn list \<Rightarrow> nat list \<Rightarrow> conn_view list" where
  "views st Ls = map (\<lambda>(c, L). (dataSent c, Conn_LastClientSeq c, L)) (zip st Ls)"

abbreviation s_mx :: "Session \<Rightarrow> int" where
  "s_mx s \<equiv> cfg_ReplaySize (s_cfg s)"

definition sess_base :: "bytes list \<Rightarrow> nat list \<Rightarrow> Session \<Rightarrow> bool" where
  "sess_base ps Ls s \<longleftrightarrow>
     sender_inv (s_mx s) ps (s_buf s) (s_sendSeq s)
     \<and> coal_inv (s_coal s) \<and> length (co_buf (s_coal s)) < 2 * Threshold
     \<and> length Ls = length (s_store s) \<and> (\<forall>c \<in> set (s_store s). conn_ok c)
     \<and> (\<forall>i. s_conn s = Some i \<longrightarrow> Suc i = length (s_store s))
     \<and> (\<forall>i < length (s_store s). s_conn s \<noteq> Some i \<longrightarrow> conn_closed (s_store s ! i))
     \<and> parts (s_mx s) ps (views (s_store s) Ls) False"

definition sess_inv :: "bytes list \<Rightarrow> nat list \<Rightarrow> Session \<Rightarrow> bool" where
  "sess_inv ps Ls s \<longleftrightarrow> sess_base ps Ls s \<and> parts (s_mx s) ps (views (s_store s) Ls) (s_conn s \<noteq> None)"

lemma length_views [simp]: "length Ls = length st \<Longrightarrow> length (views st Ls) = length st"
  by (simp add: views_def)

lemma views_snoc: "length Ls = length st \<Longrightarrow>
    views (st @ [c]) (Ls @ [L]) = views st Ls @ [(dataSent c, Conn_LastClientSeq c, L)]"
  by (simp add: views_def)

lemma views_update:
  assumes "i < length st" and "dataSent c = dataSent (st ! i)" and "Conn_LastClientSeq c = Conn_LastClientSeq (st ! i)"
  shows "views (st[i := c]) Ls = views st Ls"
  using assms by (auto simp: views_def list_eq_iff_nth_eq nth_list_update)

text \<open>What the operations on a connection leave alone.\<close>

definition same_view :: "Conn \<Rightarrow> Conn \<Rightarrow> bool" where
  "same_view c c' \<longleftrightarrow> dataSent c' = dataSent c \<and> Conn_LastClientSeq c' = Conn_LastClientSeq c"

lemma last_WriteData: "Conn_WriteData c m = (c', e) \<Longrightarrow> Conn_LastClientSeq c' = Conn_LastClientSeq c"
  and last_WriteControl: "Conn_WriteControl c m = (c', e) \<Longrightarrow> Conn_LastClientSeq c' = Conn_LastClientSeq c"
  by (cases c; auto simp: conn_write_defs split: prod.splits)+

lemma last_writeAll: "writeAll Conn_WriteData c ms = (c', e) \<Longrightarrow> Conn_LastClientSeq c' = Conn_LastClientSeq c"
  by (induction ms arbitrary: c) (auto split: prod.splits option.splits dest: last_WriteData)

lemma WriteControl_same:
  assumes "Conn_WriteControl c m = (c', e)" and "conn_ok c" and "encodable m" and "\<not> isData m"
  shows "conn_ok c'" and "same_view c c'"
  using wire.control_step [OF assms(2,3,4,1)] last_WriteControl [OF assms(1)] by (simp_all add: same_view_def)

lemma Conn_Close_same:
  assumes "conn_ok c"
  shows "conn_ok (Conn_Close c)" and "same_view c (Conn_Close c)" and "conn_closed (Conn_Close c)"
proof -
  show "conn_ok (Conn_Close c)" "same_view c (Conn_Close c)"
    using wire.close_ok [OF assms]
    by (cases c; simp add: same_view_def quicConn_Close_def tcpConn_Close_def)+
  show "conn_closed (Conn_Close c)"
    by (cases c) (simp_all add: quicConn_Close_def tcpConn_Close_def Stream_Close_def)
qed

lemma ReadControl_same:
  assumes "Conn_ReadControl c = Some (r, c')" and "conn_ok c"
  shows "conn_ok c'" and "same_view c c'"
proof -
  have "controlWriter c' = controlWriter c \<and> dataWriter c' = dataWriter c \<and> Conn_LastClientSeq c' = Conn_LastClientSeq c"
    using assms(1)
    by (cases c) (auto simp: quicConn_ReadControl_def tcpConn_ReadControl_def split: prod.splits if_splits list.splits
        dest: Stream_Read_writer)
  with assms(2) show "conn_ok c'" "same_view c c'" by (simp_all add: conn_view_defs same_view_def)
qed

lemma StartDemux_same [simp]:
  "conn_ok (Conn_StartDemux c) = conn_ok c" "same_view c (Conn_StartDemux c)"
  "conn_closed (Conn_StartDemux c) = conn_closed c"
  by (cases c; simp add: tcpConn_StartDemux_def conn_view_defs same_view_def)+

section \<open>Every operation keeps the invariant\<close>

lemma putConn_sel [simp]:
  "s_cfg (putConn s i c) = s_cfg s" "s_ptmx (putConn s i c) = s_ptmx s" "s_buf (putConn s i c) = s_buf s"
  "s_coal (putConn s i c) = s_coal s" "s_store (putConn s i c) = (s_store s)[i := c]" "s_conn (putConn s i c) = s_conn s"
  "s_sendSeq (putConn s i c) = s_sendSeq s" "s_recvSeq (putConn s i c) = s_recvSeq s" "s_cmd (putConn s i c) = s_cmd s"
  by (simp_all add: putConn_def)

lemma base_current:
  assumes "sess_base ps Ls s" and "s_conn s = Some i"
  shows "i < length (s_store s)" and "conn_ok (theConn s i)"
proof -
  show "i < length (s_store s)" using assms by (auto simp: sess_base_def)
  then show "conn_ok (theConn s i)" using assms by (simp add: sess_base_def theConn_def)
qed

lemma putConn_base:
  assumes "sess_base ps Ls s" and "s_conn s = Some i" and "conn_ok c" and "same_view (theConn s i) c"
  shows "sess_base ps Ls (putConn s i c)" and "views (s_store (putConn s i c)) Ls = views (s_store s) Ls"
proof -
  have i: "i < length (s_store s)" using base_current assms(1,2) by blast
  show v: "views (s_store (putConn s i c)) Ls = views (s_store s) Ls"
    using views_update [OF i] assms(4) by (simp add: same_view_def theConn_def)
  show "sess_base ps Ls (putConn s i c)"
    using assms i v unfolding sess_base_def
    by (auto simp: nth_list_update dest: set_update_subset_insert [THEN subsetD])
qed

lemma inv_base: "sess_inv ps Ls s \<Longrightarrow> sess_base ps Ls s"
  by (simp add: sess_inv_def)

lemma putConn_inv:
  assumes "sess_inv ps Ls s" and "s_conn s = Some i" and "conn_ok c" and "same_view (theConn s i) c"
  shows "sess_inv ps Ls (putConn s i c)"
  using assms(1) putConn_base [OF inv_base [OF assms(1)] assms(2-4)] by (simp add: sess_inv_def)

lemma closeConn_inv:
  assumes "sess_base ps Ls s"
  shows "sess_inv ps Ls (closeConn s)"
proof (cases "s_conn s")
  case None
  with assms show ?thesis by (simp add: closeConn_def sess_inv_def sess_base_def)
next
  case (Some i)
  let ?c = "Conn_Close (theConn s i)"
  note cur = base_current [OF assms Some]
  note base = putConn_base [OF assms Some Conn_Close_same(1,2) [OF cur(2)]]
  have "conn_closed (s_store (putConn s i ?c) ! j)" if "j < length (s_store s)" for j
    using assms Some that Conn_Close_same(3) [OF cur(2)] by (cases "j = i") (auto simp: sess_base_def)
  with base(1) Some show ?thesis by (auto simp: closeConn_def sess_inv_def sess_base_def)
qed

lemma closeConn_sel [simp]:
  "s_cfg (closeConn s) = s_cfg s" "s_ptmx (closeConn s) = s_ptmx s" "s_buf (closeConn s) = s_buf s"
  "s_coal (closeConn s) = s_coal s" "s_conn (closeConn s) = None" "length (s_store (closeConn s)) = length (s_store s)"
  "s_sendSeq (closeConn s) = s_sendSeq s" "s_recvSeq (closeConn s) = s_recvSeq s" "s_cmd (closeConn s) = s_cmd s"
  by (simp_all add: closeConn_def split: option.splits)

text \<open>Changes to fields that the invariant does not mention.\<close>

lemma sess_base_cong:
  "s_cfg s' = s_cfg s \<Longrightarrow> s_buf s' = s_buf s \<Longrightarrow> s_coal s' = s_coal s \<Longrightarrow> s_store s' = s_store s \<Longrightarrow>
   s_conn s' = s_conn s \<Longrightarrow> s_sendSeq s' = s_sendSeq s \<Longrightarrow> sess_base ps Ls s' = sess_base ps Ls s"
  and sess_inv_cong:
  "s_cfg s' = s_cfg s \<Longrightarrow> s_buf s' = s_buf s \<Longrightarrow> s_coal s' = s_coal s \<Longrightarrow> s_store s' = s_store s \<Longrightarrow>
   s_conn s' = s_conn s \<Longrightarrow> s_sendSeq s' = s_sendSeq s \<Longrightarrow> sess_inv ps Ls s' = sess_inv ps Ls s"
  by (simp_all add: sess_inv_def sess_base_def)

text \<open>The batches after a flush, and what a flush does.\<close>

definition flushed :: "bytes list \<Rightarrow> Coalescer \<Rightarrow> bytes list" where
  "flushed ps c = (if co_buf c = [] then ps else ps @ [co_buf c])"

lemma concat_flushed [simp]: "concat (flushed ps c) = concat ps @ co_buf c"
  by (simp add: flushed_def)

lemma store_last: "Suc i = length st \<Longrightarrow> st = take i st @ [st ! i]"
  by (metis lessI take_Suc_conv_app_nth take_all order_refl)

lemma write_live:
  assumes "sess_inv ps Ls s" and "s_conn s = Some i"
    and "Conn_WriteData (theConn s i) (Data (of_nat (Suc (length ps))) p) = (c, None)" and "sendable p"
  shows "parts (s_mx s) (ps @ [p]) (views ((s_store s)[i := c]) Ls) True" and "conn_ok c"
proof -
  note base = inv_base [OF assms(1)]
  note cur = base_current [OF base assms(2)]
  let ?m = "Data (of_nat (Suc (length ps))) p"
  have w: "conn_ok c" "dataSent c = dataSent (theConn s i) @ [?m]"
    using wire.data_step [OF cur(2) _ _ assms(3)] assms(4) by (simp_all add: sendable_def isData_def)
  then show "conn_ok c" by simp
  have i: "Suc i = length (s_store s)" "length Ls = length (s_store s)"
    using base assms(2) by (auto simp: sess_base_def)
  obtain st0 Ls0 L where st: "s_store s = st0 @ [theConn s i]" "Ls = Ls0 @ [L]" "length st0 = i" "length Ls0 = i"
    using i store_last [of i "s_store s"] store_last [of i Ls] by (metis diff_Suc_1 length_append_singleton theConn_def)
  have "parts (s_mx s) ps (views st0 Ls0 @ [(dataSent (theConn s i), Conn_LastClientSeq c, L)]) True"
    using assms(1,2) st last_WriteData [OF assms(3)] by (simp add: sess_inv_def views_snoc)
  from parts_grow [OF this, of p] w(2) show "parts (s_mx s) (ps @ [p]) (views ((s_store s)[i := c]) Ls) True"
    using st by (simp add: views_snoc list_update_append)
qed

lemma flush_inv:
  assumes "sess_inv ps Ls s"
  shows "\<exists>s'. flushCoalesced s = Some s' \<and> sess_inv (flushed ps (s_coal s)) Ls s'
    \<and> coal_idle (s_coal s') \<and> co_buf (s_coal s') = []
    \<and> s_cfg s' = s_cfg s \<and> s_ptmx s' = s_ptmx s \<and> s_cmd s' = s_cmd s \<and> s_recvSeq s' = s_recvSeq s
    \<and> (s_conn s' = s_conn s \<or> s_conn s' = None)"
proof (cases "co_buf (s_coal s) = []")
  case True
  then have "Coalescer_Flush (s_coal s) = (s_coal s, None)" by (simp add: Coalescer_Flush_def)
  moreover have "coal_idle (s_coal s)" using assms True by (auto simp: sess_inv_def sess_base_def coal_inv_def coal_idle_def)
  ultimately show ?thesis using assms True by (simp add: flushCoalesced_def flushed_def)
next
  case False
  let ?d = "co_buf (s_coal s)"
  define coal where "coal = fst (Coalescer_Flush (s_coal s))"
  have coal: "Coalescer_Flush (s_coal s) = (coal, Some ?d)" "coal_idle coal" "co_buf coal = []"
    using False assms coal_idle_Flush [of "s_coal s"] by (simp_all add: coal_def prod_eq_iff sess_inv_def sess_base_def)
  have d: "sendable ?d" using assms False by (intro sendable_small) (auto simp: sess_inv_def sess_base_def)
  obtain b where b: "Buffer_Store (s_buf s) (s_sendSeq s + 1) ?d = Some b"
      "sender_inv (s_mx s) (ps @ [?d]) b (s_sendSeq s + 1)"
    using sender_store [OF _ d] assms unfolding sess_inv_def sess_base_def by blast
  define s2 where "s2 = s\<lparr>s_coal := coal, s_sendSeq := s_sendSeq s + 1, s_buf := b\<rparr>"
  have s2: "s_store s2 = s_store s" "s_conn s2 = s_conn s" "s_cfg s2 = s_cfg s" "theConn s2 = theConn s"
      "s_sendSeq s2 = of_nat (Suc (length ps))"
    using assms by (auto simp: s2_def sess_inv_def sess_base_def sender_inv_def theConn_def fun_eq_iff)
  have base: "sess_base (ps @ [?d]) Ls s2"
    using assms b coal parts_extend [of "s_mx s" ps "views (s_store s) Ls" ?d] coal_idle_inv [of coal]
    by (auto simp: sess_inv_def sess_base_def s2_def Threshold_def)
  have run: "flushCoalesced s = (case s_conn s2 of None \<Rightarrow> Some s2
      | Some i \<Rightarrow> (case Conn_WriteData (theConn s2 i) (Data (s_sendSeq s2) ?d) of
          (c, None) \<Rightarrow> Some (putConn s2 i c) | (c, Some e) \<Rightarrow> Some (closeConn (putConn s2 i c))))"
    using coal(1) b(1) by (cases "s_conn s") (simp_all add: flushCoalesced_def s2_def Let_def split: prod.splits option.splits)
  show ?thesis
  proof (cases "s_conn s")
    case None
    then have "sess_inv (ps @ [?d]) Ls s2" using base s2 by (simp add: sess_inv_def sess_base_def)
    with run None s2 coal False show ?thesis by (simp add: flushed_def s2_def)
  next
    case (Some i)
    obtain c e where w: "Conn_WriteData (theConn s2 i) (Data (s_sendSeq s2) ?d) = (c, e)" by fastforce
    have cur: "conn_ok (theConn s2 i)" using base_current [OF base] s2 Some by simp
    show ?thesis
    proof (cases e)
      case None
      have "parts (s_mx s) (ps @ [?d]) (views ((s_store s)[i := c]) Ls) True" "conn_ok c"
        using write_live [OF assms Some _ d] w s2 None by simp_all
      then have "sess_inv (ps @ [?d]) Ls (putConn s2 i c)"
        using base s2 Some parts_not_live unfolding sess_inv_def sess_base_def
        by (auto simp: nth_list_update dest: set_update_subset_insert [THEN subsetD])
      with run None w s2 Some coal False show ?thesis by (simp add: flushed_def s2_def)
    next
      case (Some x)
      have "conn_ok c" "same_view (theConn s2 i) c"
        using wire.data_step [OF cur _ _ w] d Some last_WriteData [OF w]
        by (simp_all add: sendable_def isData_def same_view_def)
      then have "sess_inv (ps @ [?d]) Ls (closeConn (putConn s2 i c))"
        using closeConn_inv putConn_base(1) [OF base] s2 \<open>s_conn s = Some i\<close> by simp
      with run Some w s2 \<open>s_conn s = Some i\<close> coal False show ?thesis by (simp add: flushed_def s2_def)
    qed
  qed
qed

section \<open>Attaching a connection\<close>

text \<open>
  A connection as the listeners and the dialers deliver it: nothing but the handshake was sent on it, it is not
  demultiplexed and its channels are empty. \<open>attaching\<close> is the invariant between making it current and the end of its replay.
\<close>

fun demuxed :: "Conn \<Rightarrow> bool" where
  "demuxed (QuicConn c) = False"
| "demuxed (TcpConn c) = tc_demuxStarted c"

definition fresh_conn :: "Conn \<Rightarrow> bool" where
  "fresh_conn c \<longleftrightarrow> conn_ok c \<and> dataSent c = [] \<and> \<not> demuxed c
     \<and> (case c of QuicConn q \<Rightarrow> True | TcpConn t \<Rightarrow> tc_dataCh t = [] \<and> tc_controlCh t = [] \<and> \<not> tc_chClosed t)"

lemma accepted_fresh:
  assumes "sent st = []" and "sent cs = []" and "sent ds = []"
  shows "tcpAcceptLoop_turn passkey material st = Delivered c \<Longrightarrow> fresh_conn c"
    and "quicAcceptLoop_turn passkey material (Some cs) (Some ds) = Delivered c \<Longrightarrow> fresh_conn c"
proof -
  have none: "wellSent (st_w x)" "sentMsgs (st_w x) = []" if "sent x = []" for x
    using that wellSent_whole [of "[]" "st_w x"] by simp_all
  show "tcpAcceptLoop_turn passkey material st = Delivered c \<Longrightarrow> fresh_conn c"
    using none [OF assms(1)]
    by (fastforce dest!: tcp_delivered serverAuth_accepts(2) serverSeqHeader_accepts(2)
        simp: fresh_conn_def conn_view_defs newTCPConn_def isData_def)
  show "quicAcceptLoop_turn passkey material (Some cs) (Some ds) = Delivered c \<Longrightarrow> fresh_conn c"
    using none [OF assms(2)] none [OF assms(3)]
    by (fastforce dest!: quic_delivered serverAuth_accepts(2) serverSeqHeader_accepts(2)
        simp: fresh_conn_def conn_view_defs)
qed

definition attaching :: "bytes list \<Rightarrow> nat list \<Rightarrow> u64 \<Rightarrow> nat \<Rightarrow> Session \<Rightarrow> bool" where
  "attaching ps Ls a i s \<longleftrightarrow> sess_base ps (Ls @ [length ps]) s \<and> s_conn s = Some i \<and> coal_idle (s_coal s)
     \<and> dataSent (theConn s i) = [] \<and> Conn_LastClientSeq (theConn s i) = a \<and> \<not> demuxed (theConn s i)"

lemma attaching_base: "attaching ps Ls a i s \<Longrightarrow> sess_base ps (Ls @ [length ps]) s"
  by (simp add: attaching_def)

lemma demuxed_ops:
  "Conn_WriteControl c m = (c', e) \<Longrightarrow> demuxed c' = demuxed c"
  "Conn_ReadControl c = Some (r, c') \<Longrightarrow> demuxed c' = demuxed c"
  by (cases c; auto simp: conn_write_defs quicConn_ReadControl_def tcpConn_ReadControl_def
      split: prod.splits if_splits list.splits)+

lemma not_demuxed_reads: "\<not> demuxed c \<Longrightarrow> Conn_ReadControl c \<noteq> None"
  by (cases c) (auto simp: tcpConn_ReadControl_def split: prod.splits)

lemma theConn_put [simp]: "i < length (s_store s) \<Longrightarrow> theConn (putConn s i c) i = c"
  by (simp add: theConn_def)

lemma putConn_attaching:
  assumes "attaching ps Ls a i s" and "conn_ok c" and "same_view (theConn s i) c" and "\<not> demuxed c"
  shows "attaching ps Ls a i (putConn s i c)"
proof -
  have cur: "s_conn s = Some i" "i < length (s_store s)"
    using assms(1) base_current [OF attaching_base] by (auto simp: attaching_def)
  then show ?thesis
    using assms putConn_base(1) [OF attaching_base [OF assms(1)] cur(1) assms(2,3)]
    by (simp add: attaching_def same_view_def)
qed

lemma attach_attaching:
  assumes "sess_inv ps Ls s" and "s_conn s = None" and "coal_idle (s_coal s)" and "fresh_conn c"
  shows "attaching ps Ls (Conn_LastClientSeq c) (length (s_store s))
    (s\<lparr>s_store := s_store s @ [c], s_conn := Some (length (s_store s))\<rparr>)"
proof -
  have "parts (s_mx s) ps (views (s_store s) Ls @ [(dataSent c, Conn_LastClientSeq c, length ps)]) False"
    using assms(1,4) by (auto simp: sess_inv_def fresh_conn_def intro: parts_new_empty)
  then show ?thesis
    using assms
    by (auto simp: attaching_def sess_inv_def sess_base_def fresh_conn_def theConn_def views_snoc nth_append less_Suc_eq)
qed

lemma await_attaching:
  assumes "attaching ps Ls a i s" and "awaitTerminalInfo s i = (s', r)"
  shows "case r of Inr t \<Rightarrow> attaching ps Ls a i s'
    | Inl out \<Rightarrow> out \<in> {Continue, Panicked} \<and> sess_base ps (Ls @ [length ps]) s' \<and> coal_idle (s_coal s')
        \<and> (out = Continue \<longrightarrow> sess_inv ps (Ls @ [length ps]) s')"
    and "s_cfg s' = s_cfg s \<and> s_ptmx s' = s_ptmx s \<and> s_recvSeq s' = s_recvSeq s \<and> s_coal s' = s_coal s"
proof -
  obtain res c where rd: "Conn_ReadControl (theConn s i) = Some (res, c)"
    using not_demuxed_reads [of "theConn s i"] assms(1) by (auto simp: attaching_def)
  have "conn_ok (theConn s i)" using base_current(2) [OF attaching_base [OF assms(1)]] assms(1) by (simp add: attaching_def)
  then have st: "attaching ps Ls a i (putConn s i c)"
    using putConn_attaching [OF assms(1)] ReadControl_same [OF rd] demuxed_ops(2) [OF rd] assms(1) by (simp add: attaching_def)
  have idle: "coal_idle (s_coal s)" using assms(1) by (simp add: attaching_def)
  note closed = closeConn_inv [OF attaching_base [OF st]]
  show "case r of Inr t \<Rightarrow> attaching ps Ls a i s'
    | Inl out \<Rightarrow> out \<in> {Continue, Panicked} \<and> sess_base ps (Ls @ [length ps]) s' \<and> coal_idle (s_coal s')
        \<and> (out = Continue \<longrightarrow> sess_inv ps (Ls @ [length ps]) s')"
    using assms(2) rd st closed attaching_base [OF st] idle inv_base [OF closed]
    by (auto simp: awaitTerminalInfo_def Let_def split: sum.splits conn_error.splits proto_error.splits message.splits)
  show "s_cfg s' = s_cfg s \<and> s_ptmx s' = s_ptmx s \<and> s_recvSeq s' = s_recvSeq s \<and> s_coal s' = s_coal s"
    using assms(2) rd
    by (auto simp: awaitTerminalInfo_def Let_def split: sum.splits conn_error.splits proto_error.splits message.splits)
qed

lemma ensurePTY_attaching:
  assumes "attaching ps Ls a i s" and "ensurePTY env s t = (s', e)"
  shows "case e of None \<Rightarrow> attaching ps Ls a i s' | Some x \<Rightarrow> sess_inv ps (Ls @ [length ps]) s' \<and> s_ptmx s = None"
    and "s_cfg s' = s_cfg s \<and> s_recvSeq s' = s_recvSeq s \<and> s_coal s' = s_coal s"
proof -
  have upd: "attaching ps Ls a i (s\<lparr>s_ptmx := p, s_cmd := d\<rparr>)" for p d
    using assms(1) sess_base_cong [of "s\<lparr>s_ptmx := p, s_cmd := d\<rparr>" s] by (simp add: attaching_def theConn_def)
  then show "case e of None \<Rightarrow> attaching ps Ls a i s' | Some x \<Rightarrow> sess_inv ps (Ls @ [length ps]) s' \<and> s_ptmx s = None"
    and "s_cfg s' = s_cfg s \<and> s_recvSeq s' = s_recvSeq s \<and> s_coal s' = s_coal s"
    using assms closeConn_inv [OF attaching_base [OF assms(1)]]
    by (auto simp: ensurePTY_def split: option.splits sum.splits)
qed

lemma attaching_replayed:
  assumes "attaching ps Ls a i s" and "length ps < 2 ^ 64" and "Buffer_ReplaySince (s_buf s) a = Some entries"
    and "writeAll Conn_WriteData (theConn s i) (map toData entries) = (c, e)"
  shows "parts (s_mx s) ps (views ((s_store s)[i := c]) (Ls @ [length ps])) (e = None)" and "conn_ok c"
    and "Conn_LastClientSeq c = a"
proof -
  note base = attaching_base [OF assms(1)]
  have cur: "s_conn s = Some i" "conn_ok (theConn s i)" "dataSent (theConn s i) = []"
    using assms(1) base_current [OF base] by (auto simp: attaching_def)
  obtain k where k: "entries = drop k (numbered ps)" "unat a \<le> k"
      "unat a \<le> length ps \<longrightarrow> k = unat a \<or> exceeds (s_mx s) (drop (unat a) (numbered ps))"
    using sender_replay [OF _ assms(2), of "s_mx s" "s_buf s" "s_sendSeq s" a] base assms(3)
    by (auto simp: sess_base_def)
  have "\<forall>m \<in> set (map toData entries). encodable m \<and> isData m"
    using numbered_sendable [of ps] base k(1) by (auto simp: sess_base_def sender_inv_def dest: in_set_dropD)
  then obtain j where j: "j \<le> length ps - k" "e = None \<longrightarrow> j = length ps - k" "conn_ok c"
      "dataSent c = map toData (take j (drop k (numbered ps)))"
    using wire.writeAll_log [OF cur(2) _ assms(4)] cur(3) k(1) by (auto simp: take_map)
  show "conn_ok c" "Conn_LastClientSeq c = a"
    using j(3) last_writeAll [OF assms(4)] assms(1) by (simp_all add: attaching_def)
  have i: "Suc i = length (s_store s)" "length (Ls @ [length ps]) = length (s_store s)"
    using base cur(1) by (auto simp: sess_base_def)
  then obtain st0 where st: "s_store s = st0 @ [theConn s i]" "length st0 = i" "length Ls = i"
    using store_last [of i "s_store s"] by (metis length_append_singleton nat.inject theConn_def)
  then have "parts (s_mx s) ps (views st0 Ls) False"
    using base by (simp add: sess_base_def views_snoc parts_snoc)
  from parts_replayed [OF this assms(2) k(2) j(1) k(3) j(2)]
  show "parts (s_mx s) ps (views ((s_store s)[i := c]) (Ls @ [length ps])) (e = None)"
    using st j(4) \<open>Conn_LastClientSeq c = a\<close> by (simp add: views_snoc list_update_append)
qed

lemma replayTo_inv:
  assumes "attaching ps Ls a i s" and "length ps < 2 ^ 64" and "replayTo s i a = (s', out)"
  shows "out = Continue \<and> sess_inv ps (Ls @ [length ps]) s' \<and> s_cfg s' = s_cfg s \<and> s_recvSeq s' = s_recvSeq s
    \<and> s_coal s' = s_coal s"
proof -
  note base = attaching_base [OF assms(1)]
  have i: "s_conn s = Some i" "i < length (s_store s)"
    using assms(1) base_current [OF base] by (auto simp: attaching_def)
  obtain entries where ent: "Buffer_ReplaySince (s_buf s) a = Some entries"
    using sender_replay [OF _ assms(2), of "s_mx s" "s_buf s" "s_sendSeq s" a] base by (auto simp: sess_base_def)
  obtain c e where w: "writeAll Conn_WriteData (theConn s i) (map toData entries) = (c, e)" by fastforce
  note c = attaching_replayed [OF assms(1,2) ent w]
  have base': "sess_base ps (Ls @ [length ps]) (putConn s i c)"
    using base i c parts_not_live unfolding sess_base_def
    by (auto simp: nth_list_update dest: set_update_subset_insert [THEN subsetD])
  show ?thesis
  proof (cases e)
    case (Some x)
    with assms(3) ent w closeConn_inv [OF base'] show ?thesis by (auto simp: replayTo_def)
  next
    case None
    define s2 where "s2 = (case s_ptmx s of None \<Rightarrow> putConn s i c
      | Some p \<Rightarrow> (putConn s i c)\<lparr>s_ptmx := Some (fst (bouncePTYSize p))\<rparr>)"
    have same: "s_cfg s2 = s_cfg s" "s_buf s2 = s_buf s" "s_coal s2 = s_coal s" "s_store s2 = (s_store s)[i := c]"
        "s_conn s2 = Some i" "s_sendSeq s2 = s_sendSeq s" "s_recvSeq s2 = s_recvSeq s"
      using i by (simp_all add: s2_def split: option.splits)
    have "sess_inv ps (Ls @ [length ps]) (putConn s i c)" using base' c(1) i None by (simp add: sess_inv_def)
    then have inv: "sess_inv ps (Ls @ [length ps]) s2"
      using sess_inv_cong [of s2 "putConn s i c"] same i by simp
    have "theConn s2 i = c" using same i by (simp add: theConn_def)
    then have "sess_inv ps (Ls @ [length ps]) (putConn s2 i (Conn_StartDemux (theConn s2 i)))"
      using putConn_inv [OF inv same(5)] c(2) by simp
    with assms(3) ent w None same show ?thesis by (auto simp: replayTo_def Let_def s2_def [symmetric])
  qed
qed

text \<open>The state in which the handshake of a new connection starts, and how it goes on.\<close>

lemma handleNewConn_unfold:
  assumes "sess_inv ps Ls s" and "fresh_conn c" and "ps' = flushed ps (s_coal s)"
    and "Conn_WriteControl c (SequenceHeader (s_recvSeq s)) = (c1, e1)"
  shows "\<exists>s4. attaching ps' Ls (Conn_LastClientSeq c) (length (s_store s)) s4 \<and> theConn s4 (length (s_store s)) = c1
    \<and> length (s_store s4) = Suc (length (s_store s))
    \<and> co_buf (s_coal s4) = [] \<and> s_cfg s4 = s_cfg s \<and> s_recvSeq s4 = s_recvSeq s \<and> s_ptmx s4 = s_ptmx s
    \<and> handleNewConn env s c =
        (case e1 of Some e \<Rightarrow> (closeConn s4, Continue)
         | None \<Rightarrow> (case awaitTerminalInfo s4 (length (s_store s)) of
             (s5, Inl out) \<Rightarrow> (s5, out)
           | (s5, Inr t) \<Rightarrow> (case ensurePTY env s5 t of
               (s6, Some e) \<Rightarrow> (s6, Return (ErrSpawnPTY e))
             | (s6, None) \<Rightarrow> replayTo s6 (length (s_store s)) (Conn_LastClientSeq c))))"
proof -
  define i where "i = length (s_store s)"
  have s1: "sess_inv ps Ls (closeConn s)" using closeConn_inv inv_base assms(1) by blast
  obtain s2 where s2: "flushCoalesced (closeConn s) = Some s2" "sess_inv ps' Ls s2" "coal_idle (s_coal s2)"
      "co_buf (s_coal s2) = []" "s_cfg s2 = s_cfg s" "s_recvSeq s2 = s_recvSeq s" "s_conn s2 = None" "s_ptmx s2 = s_ptmx s"
    using flush_inv [OF s1] assms(3) by auto
  have i: "length (s_store s2) = i" using s2(2) s1 by (simp add: sess_inv_def sess_base_def i_def)
  define s3 where "s3 = s2\<lparr>s_store := s_store s2 @ [c], s_conn := Some i\<rparr>"
  have s3: "attaching ps' Ls (Conn_LastClientSeq c) i s3" "theConn s3 i = c" "length (s_store s3) = Suc i"
    using attach_attaching [OF s2(2,7,3) assms(2)] i by (auto simp: s3_def theConn_def nth_append)
  define s4 where "s4 = putConn s3 i c1"
  have c1: "conn_ok c1" "same_view c c1" "\<not> demuxed c1"
    using WriteControl_same [OF assms(4)] demuxed_ops(1) [OF assms(4)] assms(2) by (simp_all add: fresh_conn_def isData_def)
  have "attaching ps' Ls (Conn_LastClientSeq c) i s4"
    using putConn_attaching [OF s3(1) c1(1)] c1 s3 unfolding s4_def by simp
  moreover have "handleNewConn env s c =
      (case e1 of Some e \<Rightarrow> (closeConn s4, Continue)
       | None \<Rightarrow> (case awaitTerminalInfo s4 i of
           (s5, Inl out) \<Rightarrow> (s5, out)
         | (s5, Inr t) \<Rightarrow> (case ensurePTY env s5 t of
             (s6, Some e) \<Rightarrow> (s6, Return (ErrSpawnPTY e))
           | (s6, None) \<Rightarrow> replayTo s6 i (Conn_LastClientSeq c))))"
    using s2(1,6) assms(4) i by (simp add: handleNewConn_def Let_def s3_def [symmetric] s4_def split: option.splits)
  ultimately show ?thesis
    using s2 s3 unfolding i_def [symmetric] by (intro exI [of _ s4]) (simp add: s4_def s3_def)
qed

lemma handleNewConn_inv:
  assumes "sess_inv ps Ls s" and "fresh_conn c" and "ps' = flushed ps (s_coal s)" and "length ps' < 2 ^ 64"
    and "handleNewConn env s c = (s', out)"
  shows "sess_base ps' (Ls @ [length ps']) s' \<and> (out \<noteq> Panicked \<longrightarrow> sess_inv ps' (Ls @ [length ps']) s')
    \<and> out \<noteq> Blocked \<and> coal_idle (s_coal s') \<and> co_buf (s_coal s') = [] \<and> s_cfg s' = s_cfg s \<and> s_recvSeq s' = s_recvSeq s
    \<and> (\<forall>e. out = Return e \<longrightarrow> s_ptmx s = None \<and> s_conn s' = None)"
proof -
  let ?i = "length (s_store s)"
  obtain c1 e1 where w: "Conn_WriteControl c (SequenceHeader (s_recvSeq s)) = (c1, e1)" by fastforce
  obtain s4 where s4: "attaching ps' Ls (Conn_LastClientSeq c) ?i s4" and sel: "co_buf (s_coal s4) = []"
      "s_cfg s4 = s_cfg s" "s_recvSeq s4 = s_recvSeq s" "s_ptmx s4 = s_ptmx s"
    and run: "handleNewConn env s c =
        (case e1 of Some e \<Rightarrow> (closeConn s4, Continue)
         | None \<Rightarrow> (case awaitTerminalInfo s4 ?i of
             (s5, Inl out) \<Rightarrow> (s5, out)
           | (s5, Inr t) \<Rightarrow> (case ensurePTY env s5 t of
               (s6, Some e) \<Rightarrow> (s6, Return (ErrSpawnPTY e))
             | (s6, None) \<Rightarrow> replayTo s6 ?i (Conn_LastClientSeq c))))"
    using handleNewConn_unfold [OF assms(1-3) w, of env] by blast
  have idle: "coal_idle (s_coal s4)" using s4 by (simp add: attaching_def)
  show ?thesis
  proof (cases e1)
    case (Some e)
    with run assms(5) closeConn_inv [OF attaching_base [OF s4]] inv_base sel idle show ?thesis by auto
  next
    case None
    obtain s5 r where a: "awaitTerminalInfo s4 ?i = (s5, r)" by fastforce
    note a5 = await_attaching [OF s4 a]
    show ?thesis
    proof (cases r)
      case (Inl out')
      with run None a assms(5) a5 sel idle show ?thesis by auto
    next
      case (Inr t)
      obtain s6 e6 where p: "ensurePTY env s5 t = (s6, e6)" by fastforce
      have "attaching ps' Ls (Conn_LastClientSeq c) ?i s5" using a5(1) Inr by simp
      note a6 = ensurePTY_attaching [OF this p]
      show ?thesis
      proof (cases e6)
        case (Some e)
        then have "s_conn s6 = None" using p by (auto simp: ensurePTY_def split: option.splits sum.splits)
        with run None a Inr p Some assms(5) a6 a5(2) sel idle inv_base show ?thesis by auto
      next
        case n6: None
        with run None a Inr p assms(5) have "replayTo s6 ?i (Conn_LastClientSeq c) = (s', out)" by simp
        with replayTo_inv [OF _ assms(4) this] a6 n6 a5(2) sel idle inv_base show ?thesis by auto
      qed
    qed
  qed
qed

section \<open>The other handlers\<close>

lemma heartbeat_inv:
  assumes "sess_inv ps Ls s"
  shows "sess_inv ps Ls (session_heartbeat now ms lastRecv s)" and "s_coal (session_heartbeat now ms lastRecv s) = s_coal s"
    and "s_cfg (session_heartbeat now ms lastRecv s) = s_cfg s"
proof -
  show "s_coal (session_heartbeat now ms lastRecv s) = s_coal s" "s_cfg (session_heartbeat now ms lastRecv s) = s_cfg s"
    by (simp_all add: session_heartbeat_def split: option.splits prod.splits)
  show "sess_inv ps Ls (session_heartbeat now ms lastRecv s)"
  proof (cases "s_conn s")
    case None
    with assms show ?thesis by (simp add: session_heartbeat_def)
  next
    case (Some i)
    obtain c e where w: "Conn_WriteControl (theConn s i) (Heartbeat ms) = (c, e)" by fastforce
    have "conn_ok c" "same_view (theConn s i) c"
      using WriteControl_same [OF w] base_current(2) [OF inv_base [OF assms] Some] by (simp_all add: isData_def)
    then have put: "sess_inv ps Ls (putConn s i c)" using putConn_inv [OF assms Some] by simp
    with closeConn_inv [OF inv_base [OF put]] show ?thesis
      by (simp add: session_heartbeat_def Some w split: option.splits)
  qed
qed

lemma handleStreamEvent_inv:
  assumes "sess_inv ps Ls s" and "handleStreamEvent s ev = (s', e)"
  shows "sess_inv ps Ls s'" and "s_coal s' = s_coal s" and "s_cfg s' = s_cfg s"
proof -
  have upd: "sess_inv ps Ls (s\<lparr>s_ptmx := p\<rparr>)" "sess_inv ps Ls (s\<lparr>s_recvSeq := q\<rparr>)"
      "sess_inv ps Ls (s\<lparr>s_ptmx := p, s_recvSeq := q\<rparr>)" for p q
    using assms(1) by (simp_all add: sess_inv_def sess_base_def)
  show "sess_inv ps Ls s'" "s_coal s' = s_coal s" "s_cfg s' = s_cfg s"
    using assms upd closeConn_inv [OF inv_base [OF assms(1)]]
    by (auto simp: handleStreamEvent_def split: if_splits sum.splits message.splits option.splits prod.splits)
qed

lemma gracefulShutdown_inv:
  assumes "sess_inv ps Ls s"
  shows "\<exists>s'. gracefulShutdown s = Some s' \<and> sess_inv (flushed ps (s_coal s)) Ls s'
    \<and> co_buf (s_coal s') = [] \<and> coal_idle (s_coal s') \<and> s_cfg s' = s_cfg s"
proof -
  obtain s1 where s1: "flushCoalesced s = Some s1" "sess_inv (flushed ps (s_coal s)) Ls s1"
      "co_buf (s_coal s1) = []" "coal_idle (s_coal s1)" "s_cfg s1 = s_cfg s"
    using flush_inv [OF assms] by auto
  show ?thesis
  proof (cases "s_conn s1")
    case None
    with s1 show ?thesis by (simp add: gracefulShutdown_def)
  next
    case (Some i)
    obtain c e where w: "Conn_WriteControl (theConn s1 i) Shutdown = (c, e)" by fastforce
    have "conn_ok c" "same_view (theConn s1 i) c"
      using WriteControl_same [OF w] base_current(2) [OF inv_base [OF s1(2)] Some] by (simp_all add: isData_def)
    then have "sess_inv (flushed ps (s_coal s)) Ls (putConn s1 i c)" using putConn_inv [OF s1(2) Some] by simp
    with s1 Some w show ?thesis by (simp add: gracefulShutdown_def)
  qed
qed

lemma Session_New_inv: "sess_inv [] [] (Session_New cfg now)"
  by (simp add: sess_inv_def sess_base_def Session_New_def views_def coal_defs coal_inv_def Threshold_def)

lemma Add_inv:
  assumes "sess_inv ps Ls s" and "length (co_buf (s_coal s)) < Threshold" and "length d \<le> ptyReadBufSize"
    and "coal_idle (s_coal s)"
  shows "sess_inv ps Ls (s\<lparr>s_coal := fst (Coalescer_Add now (s_coal s) d)\<rparr>)"
  using assms coal_idle_Add [OF assms(4), THEN coal_idle_inv]
  by (simp add: sess_inv_def sess_base_def Threshold_def ptyReadBufSize_def)

section \<open>Connections on which writes succeed\<close>

definition healthy_conn :: "Conn \<Rightarrow> bool" where
  "healthy_conn c \<longleftrightarrow> ws_room (controlWriter c) = None \<and> ws_room (dataWriter c) = None"

fun controlIn :: "Conn \<Rightarrow> bytes" where
  "controlIn (QuicConn c) = incoming (qc_control c)"
| "controlIn (TcpConn c) = incoming (tc_conn c)"

lemma healthy_WriteControl:
  assumes "healthy_conn c" and "encodable m"
  shows "\<exists>c'. Conn_WriteControl c m = (c', None) \<and> healthy_conn c' \<and> controlIn c' = controlIn c"
proof (cases c)
  case (QuicConn q)
  with assms Stream_Write_healthy [OF assms(2), of "qc_control q"] show ?thesis
    by (auto simp: conn_write_defs healthy_conn_def)
next
  case (TcpConn t)
  with assms Stream_Write_healthy [OF assms(2), of "tc_conn t"] show ?thesis
    by (auto simp: conn_write_defs healthy_conn_def)
qed

lemma healthy_WriteData:
  assumes "healthy_conn c" and "encodable m"
  shows "\<exists>c'. Conn_WriteData c m = (c', None) \<and> healthy_conn c'"
proof (cases c)
  case (QuicConn q)
  with assms Stream_Write_healthy [OF assms(2), of "qc_data q"] show ?thesis
    by (auto simp: conn_write_defs healthy_conn_def)
next
  case (TcpConn t)
  with assms Stream_Write_healthy [OF assms(2), of "tc_conn t"] show ?thesis
    by (auto simp: conn_write_defs healthy_conn_def)
qed

lemma healthy_writeAll:
  assumes "healthy_conn c" and "\<forall>m \<in> set ms. encodable m"
  shows "\<exists>c'. writeAll Conn_WriteData c ms = (c', None) \<and> healthy_conn c'"
  using assms
proof (induction ms arbitrary: c)
  case (Cons m ms)
  then obtain c1 where "Conn_WriteData c m = (c1, None)" "healthy_conn c1" using healthy_WriteData [of c m] by auto
  with Cons show ?case by simp
qed simp

lemma direct_ReadControl:
  assumes "\<not> demuxed c" and "controlIn c = frame m @ rest" and "encodable m"
  shows "\<exists>c'. Conn_ReadControl c = Some (Inr m, c') \<and> controlWriter c' = controlWriter c \<and> dataWriter c' = dataWriter c
    \<and> Conn_LastClientSeq c' = Conn_LastClientSeq c"
proof (cases c)
  case (QuicConn q)
  with assms Stream_Read_frame [OF assms(3), of "qc_control q" rest] show ?thesis
    by (auto simp: quicConn_ReadControl_def)
next
  case (TcpConn t)
  with assms Stream_Read_frame [OF assms(3), of "tc_conn t" rest] show ?thesis
    by (auto simp: tcpConn_ReadControl_def)
qed

section \<open>Properties\<close>

lemma await_got:
  assumes "attaching ps Ls a i s" and "controlIn (theConn s i) = frame m @ rest" and "encodable m"
  shows "\<exists>c. awaitTerminalInfo s i = (case m of TerminalInfo t \<Rightarrow> (putConn s i c, Inr t) | _ \<Rightarrow> (closeConn (putConn s i c), Inl Continue))
    \<and> controlWriter c = controlWriter (theConn s i) \<and> dataWriter c = dataWriter (theConn s i)
    \<and> Conn_LastClientSeq c = Conn_LastClientSeq (theConn s i)"
proof -
  have "\<not> demuxed (theConn s i)" using assms(1) by (simp add: attaching_def)
  then obtain c where "Conn_ReadControl (theConn s i) = Some (Inr m, c)" "controlWriter c = controlWriter (theConn s i)"
      "dataWriter c = dataWriter (theConn s i)" "Conn_LastClientSeq c = Conn_LastClientSeq (theConn s i)"
    using direct_ReadControl [OF _ assms(2,3)] by blast
  then show ?thesis by (cases m) (auto simp: awaitTerminalInfo_def Let_def)
qed

lemma replayTo_done:
  assumes "attaching ps Ls a i s" and "length ps < 2 ^ 64" and "healthy_conn (theConn s i)" and "s_ptmx s \<noteq> None"
  shows "\<exists>s' c'. replayTo s i a = (s', Continue) \<and> s_conn s' = Some i \<and> s_ptmx s' \<noteq> None \<and> s_store s' = (s_store s)[i := c']
    \<and> controlSent c' = controlSent (theConn s i)
    \<and> dataSent c' = map toData (filter (\<lambda>e. EntrySeq e > a) (blog (s_buf s')))
    \<and> Conn_LastClientSeq c' = a"
proof -
  note base = attaching_base [OF assms(1)]
  have cur: "s_conn s = Some i" "i < length (s_store s)" "conn_ok (theConn s i)" "dataSent (theConn s i) = []"
    using assms(1) base_current [OF base] by (auto simp: attaching_def)
  have snd: "sender_inv (s_mx s) ps (s_buf s) (s_sendSeq s)" using base by (simp add: sess_base_def)
  let ?es = "filter (\<lambda>e. EntrySeq e > a) (blog (s_buf s))"
  have es: "Buffer_ReplaySince (s_buf s) a = Some ?es" using catchup_ring.replay_filters sender_buffer [OF snd] by blast
  obtain k where "?es = drop k (numbered ps)" using sender_replay [OF snd assms(2), of a] es by auto
  then have "set ?es \<subseteq> set (numbered ps)" by (metis set_drop_subset)
  then have enc: "\<forall>m \<in> set (map toData ?es). encodable m \<and> isData m"
    using numbered_sendable [of ps] snd unfolding sender_inv_def by fastforce
  then obtain c where w: "writeAll Conn_WriteData (theConn s i) (map toData ?es) = (c, None)"
    using healthy_writeAll [OF assms(3)] by blast
  then have c: "dataSent c = map toData ?es" "controlSent c = controlSent (theConn s i)"
    using wire.writeAll_log [OF cur(3) enc w] cur(4) by auto
  obtain p where p: "s_ptmx s = Some p" using assms(4) by blast
  let ?c' = "Conn_StartDemux c"
  have "dataSent ?c' = dataSent c" "controlSent ?c' = controlSent c" "Conn_LastClientSeq ?c' = Conn_LastClientSeq c"
    by (cases c; simp add: tcpConn_StartDemux_def conn_view_defs)+
  moreover have "Conn_LastClientSeq c = a" using last_writeAll [OF w] assms(1) by (simp add: attaching_def)
  moreover have "replayTo s i a = ((putConn s i ?c')\<lparr>s_ptmx := Some (fst (bouncePTYSize p))\<rparr>, Continue)"
    using es w p cur(2) by (simp add: replayTo_def Let_def putConn_def theConn_def)
  ultimately show ?thesis using c cur by auto
qed

text \<open>A QUIC connection whose client opens with the given message, and an environment that starts a shell.\<close>

definition demoConn :: "message \<Rightarrow> u64 \<Rightarrow> Conn" where
  "demoConn m a = QuicConn \<lparr>qc_control = healthyStream (frame m), qc_data = healthyStream [], qc_lastClientSeq = a\<rparr>"

lemma demoConn_simps [simp]:
  "fresh_conn (demoConn m a)" "healthy_conn (demoConn m a)" "controlIn (demoConn m a) = frame m"
  "Conn_LastClientSeq (demoConn m a) = a" "controlSent (demoConn m a) = []"
  using wellSent_whole [of "[]" "st_w (healthyStream bs)" for bs]
  by (simp_all add: demoConn_def fresh_conn_def healthy_conn_def conn_view_defs healthyStream_def sentMsgs_def pending_def)

definition demoEnv :: spawn_env where
  "demoEnv = \<lparr>se_StartWithSize = (\<lambda>cmd rows cols. Some \<lparr>pt_in = \<lparr>ws_sent = [], ws_room = None\<rparr>, pt_rows = rows,
     pt_cols = cols, pt_sizeErr = False\<rparr>), se_SHELL = ''/bin/bash'', se_environ = []\<rparr>"

definition demoConfig :: Config where
  "demoConfig = \<lparr>cfg_SessionID = ''s1'', cfg_ReplaySize = 0\<rparr>"

lemma attach_refused:
  assumes "sess_inv ps Ls s" and "fresh_conn c" and "healthy_conn c"
    and "controlIn c = frame m @ rest" and "encodable m" and "\<forall>t. m \<noteq> TerminalInfo t"
  shows "\<exists>s'. handleNewConn env s c = (s', Continue) \<and> s_conn s' = None \<and> s_ptmx s' = s_ptmx s
    \<and> length (s_store s') = Suc (length (s_store s))
    \<and> dataSent (last (s_store s')) = [] \<and> conn_closed (last (s_store s'))"
proof -
  let ?i = "length (s_store s)" and ?ps = "flushed ps (s_coal s)"
  obtain c1 where c1: "Conn_WriteControl c (SequenceHeader (s_recvSeq s)) = (c1, None)" "controlIn c1 = controlIn c"
    using healthy_WriteControl [OF assms(3)] by force
  obtain s4 where s4: "attaching ?ps Ls (Conn_LastClientSeq c) ?i s4" "theConn s4 ?i = c1"
      "length (s_store s4) = Suc ?i" "s_ptmx s4 = s_ptmx s"
    and run: "handleNewConn env s c =
        (case awaitTerminalInfo s4 ?i of
             (s5, Inl out) \<Rightarrow> (s5, out)
           | (s5, Inr t) \<Rightarrow> (case ensurePTY env s5 t of
               (s6, Some e) \<Rightarrow> (s6, Return (ErrSpawnPTY e))
             | (s6, None) \<Rightarrow> replayTo s6 ?i (Conn_LastClientSeq c)))"
    using handleNewConn_unfold [OF assms(1,2) refl c1(1), of env] by auto
  obtain c2 where aw: "awaitTerminalInfo s4 ?i = (closeConn (putConn s4 ?i c2), Inl Continue)"
      and c2: "dataWriter c2 = dataWriter c1" "controlWriter c2 = controlWriter c1"
  proof -
    have "controlIn (theConn s4 ?i) = frame m @ rest" using s4(2) c1(2) assms(4) by simp
    from await_got [OF s4(1) this assms(5)] show thesis using that s4(2) assms(6) by (cases m) auto
  qed
  have ok: "conn_ok c2" "dataSent c2 = []"
    using c2 base_current(2) [OF attaching_base [OF s4(1)]] s4(1,2) by (simp_all add: attaching_def conn_view_defs)
  let ?s' = "closeConn (putConn s4 ?i c2)"
  have "s_conn s4 = Some ?i" using s4(1) by (simp add: attaching_def)
  then have "s_store ?s' = (s_store s4)[?i := Conn_Close c2]"
    using s4(3) by (simp add: closeConn_def theConn_def)
  then have "last (s_store ?s') = Conn_Close c2"
    using s4(3) by (metis diff_Suc_1 last_conv_nth length_list_update lessI list.size(3) nat.simps(3) nth_list_update_eq)
  with run aw s4 Conn_Close_same [OF ok(1)] ok(2) show ?thesis by (auto simp: same_view_def)
qed

text \<open>Only a TerminalInfo opens a session. When the first message that can be read on a new connection
  is any other message, the connection is closed without a byte of terminal output having been sent on it, no
  shell is started, and the session waits for the next connection.\<close>

theorem first_message_must_be_TerminalInfo:
  assumes "sess_inv ps Ls s" and "fresh_conn c" and "healthy_conn c"
    and "controlIn c = frame m @ rest" and "encodable m" and "\<forall>t. m \<noteq> TerminalInfo t"
  shows "\<exists>s'. handleNewConn env s c = (s', Continue) \<and> s_conn s' = None \<and> s_ptmx s' = s_ptmx s
    \<and> length (s_store s') = Suc (length (s_store s))
    \<and> dataSent (last (s_store s')) = [] \<and> conn_closed (last (s_store s'))"
  using assms by (rule attach_refused)

theorem first_message_must_be_TerminalInfo_witness:
  "\<exists>s'. handleNewConn demoEnv (Session_New demoConfig 0) (demoConn (Heartbeat 1) 0) = (s', Continue) \<and> s_conn s' = None"
  using first_message_must_be_TerminalInfo [OF Session_New_inv, of "demoConn (Heartbeat 1) 0" "Heartbeat 1" "[]" demoEnv demoConfig 0]
  by auto

lemma attach_ok:
  assumes "sess_inv ps Ls s" and "length (flushed ps (s_coal s)) < 2 ^ 64" and "fresh_conn c" and "healthy_conn c"
    and "controlIn c = frame (TerminalInfo t) @ rest" and "length t \<le> 65533"
    and "s_ptmx s = None \<Longrightarrow> se_StartWithSize env (shellCommand (se_SHELL env) (se_environ env) (cfg_SessionID (s_cfg s)) t) 24 80 \<noteq> None"
  shows "\<exists>s' c'. handleNewConn env s c = (s', Continue) \<and> s_conn s' = Some (length (s_store s)) \<and> s_ptmx s' \<noteq> None
    \<and> s_store s' = butlast (s_store s') @ [c'] \<and> length (s_store s') = Suc (length (s_store s))
    \<and> controlSent c' = controlSent c @ [SequenceHeader (s_recvSeq s)]
    \<and> dataSent c' = map toData (filter (\<lambda>e. EntrySeq e > Conn_LastClientSeq c) (blog (s_buf s')))
    \<and> Conn_LastClientSeq c' = Conn_LastClientSeq c"
proof -
  let ?i = "length (s_store s)" and ?ps = "flushed ps (s_coal s)" and ?a = "Conn_LastClientSeq c"
  obtain c1 where c1: "Conn_WriteControl c (SequenceHeader (s_recvSeq s)) = (c1, None)" "controlIn c1 = controlIn c" "healthy_conn c1"
    using healthy_WriteControl [OF assms(4)] by force
  have ctl: "controlSent c1 = controlSent c @ [SequenceHeader (s_recvSeq s)]"
    using wire.control_step [OF _ _ _ c1(1)] assms(3) by (simp add: fresh_conn_def isData_def)
  obtain s4 where s4: "attaching ?ps Ls ?a ?i s4" "theConn s4 ?i = c1" "s_cfg s4 = s_cfg s" "s_ptmx s4 = s_ptmx s"
      "length (s_store s4) = Suc ?i"
    and run: "handleNewConn env s c =
        (case awaitTerminalInfo s4 ?i of
             (s5, Inl out) \<Rightarrow> (s5, out)
           | (s5, Inr t) \<Rightarrow> (case ensurePTY env s5 t of
               (s6, Some e) \<Rightarrow> (s6, Return (ErrSpawnPTY e))
             | (s6, None) \<Rightarrow> replayTo s6 ?i ?a))"
    using handleNewConn_unfold [OF assms(1,3) refl c1(1), of env] by auto
  obtain c2 where aw: "awaitTerminalInfo s4 ?i = (putConn s4 ?i c2, Inr t)"
      and c2: "dataWriter c2 = dataWriter c1" "controlWriter c2 = controlWriter c1"
    using await_got [OF s4(1), of "TerminalInfo t" rest] s4(2) c1(2) assms(5,6) by auto
  obtain s6 where s6: "ensurePTY env (putConn s4 ?i c2) t = (s6, None)" "s_ptmx s6 \<noteq> None" "theConn s6 ?i = c2"
      "length (s_store s6) = Suc ?i"
    using assms(7) s4 by (cases "s_ptmx s") (auto simp: ensurePTY_def spawnPTY_def theConn_def split: option.splits)
  have "attaching ?ps Ls ?a ?i s6"
    using ensurePTY_attaching(1) [OF _ s6(1)] await_attaching(1) [OF s4(1) aw] by simp
  from replayTo_done [OF this assms(2) _ s6(2)] obtain s' c' where
      "replayTo s6 ?i ?a = (s', Continue)" "s_conn s' = Some ?i" "s_ptmx s' \<noteq> None" "s_store s' = (s_store s6)[?i := c']"
      "controlSent c' = controlSent c2" "dataSent c' = map toData (filter (\<lambda>e. EntrySeq e > ?a) (blog (s_buf s')))"
      "Conn_LastClientSeq c' = ?a"
    using c1(3) c2 s6(3) by (auto simp: healthy_conn_def)
  moreover have "(s_store s6)[?i := c'] = butlast ((s_store s6)[?i := c']) @ [c']"
    using s6(4) by (cases "s_store s6" rule: rev_cases) (simp_all add: list_update_append)
  moreover have "controlSent c2 = controlSent c1" using c2 by (simp add: controlSent_def)
  ultimately show ?thesis using run aw s6 ctl by (intro exI [of _ s'] exI [of _ c']) simp
qed

text \<open>Attaching resumes the stream. On a connection that works and whose client opens with TerminalInfo,
  the session answers with the number of the last input it received, starts the shell if there is none yet,
  sends, in order, every stored batch above the number the client reported, and makes the connection current.\<close>

theorem attach_resumes:
  assumes "sess_inv ps Ls s" and "length (flushed ps (s_coal s)) < 2 ^ 64" and "fresh_conn c" and "healthy_conn c"
    and "controlIn c = frame (TerminalInfo t) @ rest" and "length t \<le> 65533"
    and "s_ptmx s = None \<Longrightarrow> se_StartWithSize env (shellCommand (se_SHELL env) (se_environ env) (cfg_SessionID (s_cfg s)) t) 24 80 \<noteq> None"
  shows "\<exists>s' c'. handleNewConn env s c = (s', Continue) \<and> s_conn s' = Some (length (s_store s)) \<and> s_ptmx s' \<noteq> None
    \<and> s_store s' = butlast (s_store s') @ [c'] \<and> length (s_store s') = Suc (length (s_store s))
    \<and> controlSent c' = controlSent c @ [SequenceHeader (s_recvSeq s)]
    \<and> dataSent c' = map toData (filter (\<lambda>e. EntrySeq e > Conn_LastClientSeq c) (blog (s_buf s')))"
  using attach_ok [OF assms] by blast

theorem attach_resumes_witness:
  "\<exists>s'. handleNewConn demoEnv (Session_New demoConfig 0) (demoConn (TerminalInfo ''vt100'') 0) = (s', Continue)
     \<and> s_conn s' = Some 0 \<and> s_ptmx s' \<noteq> None"
  using attach_resumes [OF Session_New_inv [of demoConfig 0], where c = "demoConn (TerminalInfo ''vt100'') 0" and t = "''vt100''" and rest = "[]" and env = demoEnv]
  by (auto simp: flushed_def Session_New_def coal_defs demoEnv_def)

text \<open>Input is acknowledged only once it has reached the terminal. If handling a stream event changes the
  number the session will report to a reconnecting client, the event was a data message on the current
  connection, the number is its number, and its whole payload was written to the terminal behind all earlier input.\<close>

theorem input_acknowledged_after_write:
  assumes "handleStreamEvent s ev = (s', e)" and "s_recvSeq s' \<noteq> s_recvSeq s" and "s_ptmx s = Some p"
  shows "s_conn s = Some (ev_conn ev) \<and> e = None
    \<and> (\<exists>payload p'. ev_res ev = Inr (Data (s_recvSeq s') payload) \<and> s_ptmx s' = Some p'
        \<and> ws_sent (pt_in p') = ws_sent (pt_in p) @ payload)"
proof -
  from assms obtain q payload where ev: "Some (ev_conn ev) = s_conn s" "ev_res ev = Inr (Data q payload)"
    by (auto simp: handleStreamEvent_def split: if_splits sum.splits message.splits option.splits)
  obtain w x where w: "Stream_Write (pt_in p) payload = (w, x)" by fastforce
  with assms ev have "x = None" "s' = s\<lparr>s_ptmx := Some (p\<lparr>pt_in := w\<rparr>), s_recvSeq := q\<rparr>" "e = None"
    by (auto simp: handleStreamEvent_def split: option.splits)
  with ev w stream_writer.write_ok [of "pt_in p" payload w] show ?thesis by simp
qed

theorem input_acknowledged_after_write_witness:
  "\<exists>s s' p. s_ptmx s = Some p \<and> handleStreamEvent s \<lparr>ev_conn = 0, ev_stream = DataStream, ev_res = Inr (Data 7 [108, 115])\<rparr> = (s', None)
     \<and> s_recvSeq s' = 7 \<and> (\<exists>p'. s_ptmx s' = Some p' \<and> ws_sent (pt_in p') = ws_sent (pt_in p) @ [108, 115])"
proof -
  define p where "p = \<lparr>pt_in = \<lparr>ws_sent = [], ws_room = None\<rparr>, pt_rows = 24, pt_cols = 80, pt_sizeErr = False\<rparr>"
  define s where "s = (Session_New demoConfig 0)\<lparr>s_ptmx := Some p, s_conn := Some 0\<rparr>"
  let ?ev = "\<lparr>ev_conn = 0, ev_stream = DataStream, ev_res = Inr (Data 7 [108, 115])\<rparr> :: streamEvent"
  obtain s' where s': "handleStreamEvent s ?ev = (s', None)" "s_recvSeq s' = 7"
    by (simp add: s_def p_def handleStreamEvent_def Stream_Write_def)
  have s: "s_ptmx s = Some p" "s_recvSeq s = 0" by (simp_all add: s_def Session_New_def)
  show ?thesis using input_acknowledged_after_write [OF s'(1) _ s(1)] s' s by auto
qed

end
