(* ===== verification/Receiver.thy ===== *)
theory Receiver
  imports Session
begin

text \<open>
  What session and client share as receivers of numbered data. History records of connections (\<open>epoch\<close>): the number
  reported when the connection started, the data messages that arrive on it, and those delivered. \<open>recv_core\<close> ties them to
  the number a receiver keeps and to what it has written to its terminal.
\<close>

section \<open>The contract of a connection's receiving side\<close>

record epoch =
  ep_dialSeq :: u64
  ep_arriving :: "message list"
  ep_delivered :: "message list"

text \<open>
  The operations that touch what a connection still has to deliver: writes leave it alone, a successful read takes its
  first data message (or none, on the control side), and a demultiplexer may at most lose its end.
\<close>

locale conn_inbox =
  fixes writeData writeControl :: "'c \<Rightarrow> message \<Rightarrow> 'c \<times> proto_error option"
    and read :: "'c \<Rightarrow> stream_name \<Rightarrow> ((conn_error + message) \<times> 'c) option"
    and demux :: "'c \<Rightarrow> 'c \<Rightarrow> bool"
    and arriving stray :: "'c \<Rightarrow> message list" and running :: "'c \<Rightarrow> bool"
  assumes write_data: "writeData c m = (c', e) \<Longrightarrow> arriving c' = arriving c \<and> stray c' = stray c \<and> running c' = running c"
    and write_control: "writeControl c m = (c', e) \<Longrightarrow> arriving c' = arriving c \<and> stray c' = stray c \<and> running c' = running c"
    and read_data: "read c DataStream = Some (r, c') \<Longrightarrow> running c \<Longrightarrow>
      running c' \<and> stray c' = stray c \<and> (\<not> isl r \<longrightarrow> arriving c = filter isData (gotten r) @ arriving c')"
    and read_control: "read c ControlStream = Some (r, c') \<Longrightarrow> running c \<Longrightarrow>
      running c' \<and> arriving c' = arriving c \<and> (\<not> isl r \<longrightarrow> stray c = filter isData (gotten r) @ stray c')"
    and demux: "demux c c' \<Longrightarrow> running c' \<and> stray c' = stray c \<and> (\<exists>lost. arriving c = arriving c' @ lost)"
begin

lemma writeAll_keeps:
  "writeAll writeData c ms = (c', e) \<Longrightarrow> arriving c' = arriving c \<and> stray c' = stray c \<and> running c' = running c"
  by (induction ms arbitrary: c) (auto split: prod.splits option.splits dest: write_data)

text \<open>
  Where the data of a connection is while it is read: delivered, dropped after a failed write, in the channel between
  reader and loop, still to be read (as long as the reader lives), or lost.
\<close>

definition feed :: "epoch \<Rightarrow> message list \<Rightarrow> (conn_error + message) list \<Rightarrow> bool \<Rightarrow> 'c \<Rightarrow> bool" where
  "feed ep dropped ch reading c \<longleftrightarrow> running c \<and> (\<exists>lost. ep_arriving ep =
     ep_delivered ep @ dropped @ filter isData (received ch) @ (if reading then arriving c else []) @ lost)"

lemma feed_start: "running c \<Longrightarrow> arriving c = ep_arriving ep \<Longrightarrow> ep_delivered ep = [] \<Longrightarrow> feed ep [] [] True c"
  by (simp add: feed_def)

lemma feed_same: "feed ep d ch reading c \<Longrightarrow> arriving c' = arriving c \<Longrightarrow> running c' = running c \<Longrightarrow> feed ep d ch reading c'"
  by (auto simp: feed_def)

lemma feed_write:
  "feed ep d ch reading c \<Longrightarrow> writeData c m = (c', e) \<Longrightarrow> feed ep d ch reading c'"
  "feed ep d ch reading c \<Longrightarrow> writeControl c m = (c', e) \<Longrightarrow> feed ep d ch reading c'"
  by (auto dest: write_data write_control intro: feed_same)

lemma feed_demux: "feed ep d ch reading c \<Longrightarrow> demux c c' \<Longrightarrow> feed ep d ch reading c'"
  using demux by (fastforce simp: feed_def)

lemma feed_read_data: "feed ep d ch True c \<Longrightarrow> read c DataStream = Some (r, c') \<Longrightarrow> feed ep d (ch @ [r]) (\<not> isl r) c'"
  using read_data by (cases r) (fastforce simp: feed_def)+

lemma feed_read_control: "feed ep d ch reading c \<Longrightarrow> read c ControlStream = Some (r, c') \<Longrightarrow> feed ep d ch reading c'"
  using read_control by (auto simp: feed_def)

lemma feed_event: "feed ep d ch reading c \<Longrightarrow> filter isData (gotten r) = [] \<Longrightarrow> feed ep d (ch @ [r]) reading c"
  by (simp add: feed_def)

lemma feed_stop: "feed ep d ch reading c \<Longrightarrow> feed ep d ch False c"
  by (auto simp: feed_def)

lemma feed_skip: "feed ep d (r # rs) reading c \<Longrightarrow> filter isData (gotten r) = [] \<Longrightarrow> feed ep d rs reading c"
  by (simp add: feed_def)

lemma feed_next:
  "feed ep [] (Inr m # rs) reading c \<Longrightarrow> isData m \<Longrightarrow> \<exists>rest. ep_arriving ep = ep_delivered ep @ m # rest"
  by (auto simp: feed_def)

lemma feed_take:
  "feed ep [] (Inr m # rs) reading c \<Longrightarrow> isData m \<Longrightarrow> feed (ep\<lparr>ep_delivered := ep_delivered ep @ [m]\<rparr>) [] rs reading c"
  by (simp add: feed_def)

lemma feed_drop: "feed ep d (Inr m # rs) reading c \<Longrightarrow> isData m \<Longrightarrow> feed ep (d @ [m]) rs reading c"
  by (simp add: feed_def)

lemma feed_member: "feed ep d (Inr m # rs) reading c \<Longrightarrow> isData m \<Longrightarrow> m \<in> set (ep_arriving ep)"
  by (auto simp: feed_def)

lemma stray_control:
  "read c ControlStream = Some (Inr m, c') \<Longrightarrow> running c \<Longrightarrow> stray c = [] \<Longrightarrow> \<not> isData m \<and> stray c' = []"
  using read_control [of c "Inr m" c'] by (auto split: if_splits)

end

section \<open>Connections keep it\<close>

text \<open>The data messages that will arrive on a connection, and those that will arrive where control messages belong.\<close>

fun dataIn :: "Conn \<Rightarrow> message list" where
  "dataIn (QuicConn c) = filter isData (parseAll (incoming (qc_data c)))"
| "dataIn (TcpConn c) = filter isData (received (tc_dataCh c)) @ filter isData (toCome c)"

fun strayIn :: "Conn \<Rightarrow> message list" where
  "strayIn (QuicConn c) = filter isData (parseAll (incoming (qc_control c)))"
| "strayIn (TcpConn c) = filter isData (received (tc_controlCh c))"

text \<open>\<open>readStream\<close>: one message or the final error becomes an event.\<close>

definition readFrom :: "Conn \<Rightarrow> stream_name \<Rightarrow> ((conn_error + message) \<times> Conn) option" where
  "readFrom c name = (case name of ControlStream \<Rightarrow> Conn_ReadControl c | DataStream \<Rightarrow> Conn_ReadData c)"

definition demux_on :: "Conn \<Rightarrow> bool" where
  "demux_on c \<longleftrightarrow> (case c of QuicConn q \<Rightarrow> True | TcpConn t \<Rightarrow> tc_demuxStarted t)"

inductive Conn_demux :: "Conn \<Rightarrow> Conn \<Rightarrow> bool" where
  "demux_step t t' \<Longrightarrow> Conn_demux (TcpConn t) (TcpConn t')"

lemma toCome_write: "toCome (t\<lparr>tc_conn := st\<rparr>) = toCome t" if "st_r st = st_r (tc_conn t)" for t
  using that by (simp add: toCome_def)

lemma inbox_write_data:
  "Conn_WriteData c m = (c', e) \<Longrightarrow> dataIn c' = dataIn c \<and> strayIn c' = strayIn c \<and> demux_on c' = demux_on c"
  and inbox_write_control:
  "Conn_WriteControl c m = (c', e) \<Longrightarrow> dataIn c' = dataIn c \<and> strayIn c' = strayIn c \<and> demux_on c' = demux_on c"
  by (cases c; auto simp: conn_write_defs demux_on_def split: prod.splits dest!: write_reader simp: toCome_write)+

lemma Stream_taken:
  "Stream_ReadMessage st = (res, st') \<Longrightarrow> \<not> isl (map_sum ProtoErr id res) \<Longrightarrow>
     filter isData (parseAll (incoming st)) = filter isData (gotten res) @ filter isData (parseAll (incoming st'))"
  using Stream_Read_parseAll [of st res st'] by (cases res) auto

lemma inbox_read_data:
  assumes "readFrom c DataStream = Some (r, c')" and "demux_on c"
  shows "demux_on c' \<and> strayIn c' = strayIn c \<and> (\<not> isl r \<longrightarrow> dataIn c = filter isData (gotten r) @ dataIn c')"
proof (cases c)
  case (QuicConn q)
  with assms show ?thesis
    using Stream_taken [of "qc_data q"] by (auto simp: readFrom_def demux_on_def quicConn_ReadData_def split: prod.splits)
next
  case (TcpConn t)
  with assms show ?thesis
    by (auto simp: readFrom_def demux_on_def tcpConn_ReadData_def toCome_def split: list.splits if_splits)
qed

lemma inbox_read_control:
  assumes "readFrom c ControlStream = Some (r, c')" and "demux_on c"
  shows "demux_on c' \<and> dataIn c' = dataIn c \<and> (\<not> isl r \<longrightarrow> strayIn c = filter isData (gotten r) @ strayIn c')"
proof (cases c)
  case (QuicConn q)
  with assms show ?thesis
    using Stream_taken [of "qc_control q"] by (auto simp: readFrom_def demux_on_def quicConn_ReadControl_def split: prod.splits)
next
  case (TcpConn t)
  with assms show ?thesis
    by (auto simp: readFrom_def demux_on_def tcpConn_ReadControl_def toCome_def split: list.splits if_splits)
qed

lemma inbox_demux:
  assumes "Conn_demux c c'"
  shows "demux_on c' \<and> strayIn c' = strayIn c \<and> (\<exists>lost. dataIn c = dataIn c' @ lost)"
proof -
  obtain t t' where t: "c = TcpConn t" "c' = TcpConn t'" "demux_step t t'" using assms by (auto elim: Conn_demux.cases)
  from t(3) show ?thesis unfolding t(1,2)
    by cases (auto simp: toCome_def demux_on_def offer_def dest!: Stream_Read_parseAll)
qed

interpretation inbox: conn_inbox Conn_WriteData Conn_WriteControl readFrom Conn_demux dataIn strayIn demux_on
  using inbox_write_data inbox_write_control inbox_read_data inbox_read_control inbox_demux by unfold_locales

text \<open>Starting the demultiplexer, and reading the first message before it runs.\<close>

lemma inbox_StartDemux:
  "dataIn (Conn_StartDemux c) = dataIn c" "strayIn (Conn_StartDemux c) = strayIn c" "demux_on (Conn_StartDemux c)"
  by (cases c; simp add: tcpConn_StartDemux_def demux_on_def toCome_def)+

lemma inbox_first_read:
  assumes "Conn_ReadControl c = Some (Inr m, c')" and "\<not> isData m" and "\<not> demuxed c"
    and "case c of QuicConn q \<Rightarrow> True | TcpConn t \<Rightarrow> \<not> tc_chClosed t"
  shows "dataIn c' = dataIn c \<and> strayIn c' = strayIn c"
proof (cases c)
  case (QuicConn q)
  then obtain res st where "Stream_ReadMessage (qc_control q) = (res, st)" "map_sum ProtoErr id res = Inr m"
      "c' = QuicConn (q\<lparr>qc_control := st\<rparr>)"
    using assms(1) by (auto simp: quicConn_ReadControl_def split: prod.splits)
  with QuicConn assms(2) show ?thesis using Stream_Read_parseAll [of "qc_control q" res st] by (cases res) auto
next
  case (TcpConn t)
  then obtain res st where "Stream_ReadMessage (tc_conn t) = (res, st)" "map_sum ProtoErr id res = Inr m"
      "c' = TcpConn (t\<lparr>tc_conn := st\<rparr>)"
    using assms(1,3) by (auto simp: tcpConn_ReadControl_def split: prod.splits)
  with TcpConn assms(2,4) show ?thesis using Stream_Read_parseAll [of "tc_conn t" res st] by (cases res) (auto simp: toCome_def)
qed

text \<open>The reader of a QUIC data stream, which only reading data changes.\<close>

definition quicData :: "Conn \<Rightarrow> reader option" where
  "quicData c = (case c of QuicConn q \<Rightarrow> Some (st_r (qc_data q)) | TcpConn t \<Rightarrow> None)"

lemma quicData_ops:
  "Conn_WriteData c m = (c', e) \<Longrightarrow> quicData c' = quicData c"
  "Conn_WriteControl c m = (c', e) \<Longrightarrow> quicData c' = quicData c"
  "Conn_ReadControl c = Some (r, c') \<Longrightarrow> quicData c' = quicData c"
  "quicData (Conn_StartDemux c) = quicData c"
  by (cases c; auto simp: quicData_def conn_write_defs quicConn_ReadControl_def tcpConn_ReadControl_def
      split: prod.splits if_splits list.splits dest!: write_reader)+

lemma quicData_writeAll: "writeAll Conn_WriteData c ms = (c', e) \<Longrightarrow> quicData c' = quicData c"
  by (induction ms arbitrary: c) (auto split: prod.splits option.splits dest: quicData_ops(1))

section \<open>Deliveries\<close>

definition lastSeq :: "message list \<Rightarrow> u64" where
  "lastSeq ms = (if ms = [] then 0 else Seq (last ms))"

text \<open>Per connection: dialed with the number of the last message delivered before, and a prefix delivered.\<close>

definition dials_ok :: "epoch list \<Rightarrow> bool" where
  "dials_ok eps \<longleftrightarrow> (\<forall>j < length eps. ep_dialSeq (eps ! j) = lastSeq (concat (map ep_delivered (take j eps)))
     \<and> (\<exists>more. ep_arriving (eps ! j) = ep_delivered (eps ! j) @ more))"

definition recv_core :: "bytes \<Rightarrow> bytes \<Rightarrow> epoch list \<Rightarrow> u64 \<Rightarrow> wstream \<Rightarrow> bool" where
  "recv_core out0 torn eps q w \<longleftrightarrow> dials_ok eps \<and> (\<forall>m \<in> set (concat (map ep_delivered eps)). isData m)
     \<and> q = lastSeq (concat (map ep_delivered eps))
     \<and> ws_sent w = out0 @ concat (map Payload (concat (map ep_delivered eps))) @ torn"

lemma dials_ok_snoc: "dials_ok (eps @ [ep]) \<longleftrightarrow> dials_ok eps
    \<and> ep_dialSeq ep = lastSeq (concat (map ep_delivered eps)) \<and> (\<exists>more. ep_arriving ep = ep_delivered ep @ more)"
  by (auto simp: dials_ok_def nth_append less_Suc_eq)

definition noteDelivered :: "message \<Rightarrow> epoch list \<Rightarrow> epoch list" where
  "noteDelivered m eps = butlast eps @ [(last eps)\<lparr>ep_delivered := ep_delivered (last eps) @ [m]\<rparr>]"

abbreviation allIn :: "epoch list \<Rightarrow> message list" where
  "allIn eps \<equiv> concat (map ep_delivered eps)"

definition payloads :: "message list \<Rightarrow> bytes" where
  "payloads ms = concat (map Payload ms)"

lemma noteDelivered_snoc [simp]:
  "noteDelivered m (eps @ [ep]) = eps @ [ep\<lparr>ep_delivered := ep_delivered ep @ [m]\<rparr>]"
  by (simp add: noteDelivered_def)

lemma recv_core_delivered:
  assumes "recv_core out0 [] eps q w" and "eps \<noteq> []" and "ep_arriving (last eps) = ep_delivered (last eps) @ Data q' p # rest"
    and "Stream_Write w p = (w', None)"
  shows "recv_core out0 [] (noteDelivered (Data q' p) eps) q' w'"
proof -
  obtain eps0 ep where eps: "eps = eps0 @ [ep]" using assms(2) by (cases eps rule: rev_cases) auto
  then have "dials_ok (noteDelivered (Data q' p) eps)" using assms(1,3) by (simp add: recv_core_def dials_ok_snoc)
  with assms(1) eps stream_writer.write_ok [OF assms(4)] show ?thesis
    by (simp add: recv_core_def lastSeq_def isData_def)
qed

lemma recv_core_start:
  assumes "recv_core out0 torn eps q w"
  shows "recv_core out0 torn (eps @ [\<lparr>ep_dialSeq = q, ep_arriving = ms, ep_delivered = []\<rparr>]) q w"
  using assms by (simp add: recv_core_def dials_ok_snoc)

lemma recv_core_torn:
  assumes "recv_core out0 [] eps q w" and "Stream_Write w p = (w', Some e)"
  shows "\<exists>torn. recv_core out0 torn eps q w'"
  using assms Stream_Write_err [OF assms(2)] by (auto simp: recv_core_def)

end
