(* ===== verification/Session_Run.thy ===== *)
theory Session_Run
  imports Receiver
begin

text \<open>
  The main loop of a session: \<open>Run\<close> of \<^verbatim>\<open>internal/session/session.go\<close> as a step relation. A state
  holds the session, the channels and goroutines around it, and the local variables of \<open>Run\<close>. A
  step is one case of the select statement, run to its end, or one turn of a goroutine: the PTY
  reader, the shell waiter, the accept loop, the stream readers, the TCP demultiplexer, a
  cancellation. Which enabled step comes next, what arrives from outside and how much time passes is
  left open. History variables record what the PTY reader delivered (\<open>r_out\<close>), how many
  batches had been sent when each connection was attached (\<open>r_marks\<close>), and what arrived on each
  connection and was written to the shell's terminal (\<open>r_epochs\<close>, \<open>r_stray\<close>).
\<close>

section \<open>State\<close>

record run_state =
  r_s :: Session
  r_now :: instant
  r_lastRecv :: instant
  r_ptyDataCh :: "bytes list"
  r_ptyClosed :: bool
  r_ptyArmed :: bool
  r_shellDone :: bool
  r_shellErr :: bool
  r_shellArmed :: bool
  r_acceptCh :: "Conn option list"
  r_accepting :: bool
  r_streamCh :: "streamEvent list"
  r_readers :: "(nat \<times> stream_name) list"
  r_ctxDone :: bool
  r_killed :: bool
  r_result :: "session_error option option"
  r_out :: bytes
  r_marks :: "nat list"
  r_epochs :: "epoch list"
  r_stray :: "message list"

definition Run_start :: "Config \<Rightarrow> instant \<Rightarrow> run_state" where
  "Run_start cfg now =
     \<lparr>r_s = Session_New cfg now, r_now = now, r_lastRecv = now, r_ptyDataCh = [], r_ptyClosed = False,
      r_ptyArmed = False, r_shellDone = False, r_shellErr = False, r_shellArmed = False, r_acceptCh = [],
      r_accepting = True, r_streamCh = [], r_readers = [], r_ctxDone = False, r_killed = False,
      r_result = None, r_out = [], r_marks = [], r_epochs = [], r_stray = []\<rparr>"

text \<open>
  Returning from \<open>Run\<close>: the deferred functions stop the coalescer, close the connection and the
  listener, and hang up the shell, killing it unless it exits within the grace period
  (\<open>exits\<close>).
\<close>

definition cleanupShell :: "bool \<Rightarrow> run_state \<Rightarrow> run_state" where
  "cleanupShell exits r =
     (case s_ptmx (r_s r) of
        None \<Rightarrow> r
      | Some p \<Rightarrow>
          (let r1 = r\<lparr>r_s := (r_s r)\<lparr>s_ptmx := Some (p\<lparr>pt_in := (pt_in p)\<lparr>ws_room := Some 0\<rparr>\<rparr>)\<rparr>\<rparr>
           in if r_shellDone r1 \<or> exits then r1 else r1\<lparr>r_killed := True\<rparr>))"

definition Run_return :: "bool \<Rightarrow> session_error option \<Rightarrow> Session \<Rightarrow> run_state \<Rightarrow> run_state" where
  "Run_return exits res s r =
     cleanupShell exits
       (r\<lparr>r_s := closeConn (s\<lparr>s_coal := Coalescer_Stop (s_coal s)\<rparr>), r_result := Some res\<rparr>)"

text \<open>The select cases.\<close>

definition on_ptyData :: "run_state \<Rightarrow> bytes \<Rightarrow> run_state option" where
  "on_ptyData r data =
     (case Coalescer_Add (r_now r) (s_coal (r_s r)) data of
        (coal, full) \<Rightarrow>
          (let s = (r_s r)\<lparr>s_coal := coal\<rparr> in
           if full then (case flushCoalesced s of None \<Rightarrow> None | Some s' \<Rightarrow> Some (r\<lparr>r_s := s'\<rparr>))
           else Some (r\<lparr>r_s := s\<rparr>)))"

definition on_ptyClosed :: "run_state \<Rightarrow> run_state option" where
  "on_ptyClosed r =
     (case flushCoalesced (r_s r) of
        None \<Rightarrow> None
      | Some s \<Rightarrow> Some (r\<lparr>r_s := s, r_ptyArmed := False\<rparr>))"

definition on_timer :: "run_state \<Rightarrow> run_state option" where
  "on_timer r =
     (case flushCoalesced ((r_s r)\<lparr>s_coal := Coalescer_recv (s_coal (r_s r))\<rparr>) of
        None \<Rightarrow> None
      | Some s \<Rightarrow> Some (r\<lparr>r_s := s\<rparr>))"

text \<open>
  A stream event is handled by \<open>handleStreamEvent\<close>; a data message of the current connection that
  was written in full is noted as delivered.
\<close>

definition takesInput :: "Session \<Rightarrow> streamEvent \<Rightarrow> bool" where
  "takesInput s ev \<longleftrightarrow> Some (ev_conn ev) = s_conn s
     \<and> (case ev_res ev of
          Inr (Data q payload) \<Rightarrow>
            (case s_ptmx s of None \<Rightarrow> True | Some p \<Rightarrow> snd (Stream_Write (pt_in p) payload) = None)
        | _ \<Rightarrow> False)"

definition noteInput :: "streamEvent \<Rightarrow> run_state \<Rightarrow> run_state" where
  "noteInput ev r =
     (if takesInput (r_s r) ev then r\<lparr>r_epochs := noteDelivered (projr (ev_res ev)) (r_epochs r)\<rparr> else r)"

definition on_stream :: "bool \<Rightarrow> run_state \<Rightarrow> streamEvent \<Rightarrow> run_state" where
  "on_stream exits r ev =
     (let r1 = (if Some (ev_conn ev) = s_conn (r_s r) \<and> \<not> isl (ev_res ev)
                then r\<lparr>r_lastRecv := r_now r\<rparr> else r)
      in case handleStreamEvent (r_s r1) ev of
           (s, Some e) \<Rightarrow> Run_return exits (Some e) s r1
         | (s, None) \<Rightarrow> (noteInput ev r1)\<lparr>r_s := s\<rparr>)"

text \<open>
  A result of the accept loop, \<open>None\<close> for an error. After a connection was handled, the channels of
  a shell that exists by now are armed if they were not; the reader goroutines of the connection
  are started unless it was closed again. A panic is recovered by \<open>Run\<close>, which then returns.
\<close>

definition startReaders :: "Session \<Rightarrow> (nat \<times> stream_name) list \<Rightarrow> (nat \<times> stream_name) list" where
  "startReaders s rs = (case s_conn s of None \<Rightarrow> rs | Some i \<Rightarrow> rs @ [(i, ControlStream), (i, DataStream)])"

definition on_accept :: "spawn_env \<Rightarrow> bool \<Rightarrow> run_state \<Rightarrow> Conn option \<Rightarrow> run_state" where
  "on_accept env exits r res =
     (case res of
        None \<Rightarrow>
          (if r_ctxDone r then Run_return exits (Some ErrContext) (r_s r) r
           else r\<lparr>r_accepting := True\<rparr>)
      | Some c \<Rightarrow>
          (case handleNewConn env (r_s r) c of
             (s, out) \<Rightarrow>
               (let r1 = r\<lparr>r_marks := r_marks r @ [unat (s_sendSeq s)], r_stray := r_stray r @ strayIn c,
                           r_epochs := r_epochs r
                             @ [\<lparr>ep_dialSeq = s_recvSeq (r_s r), ep_arriving = dataIn c, ep_delivered = []\<rparr>]\<rparr> in
                case out of
                  Return e \<Rightarrow> Run_return exits (Some e) s r1
                | Panicked \<Rightarrow> Run_return exits (Some ErrPanic) s r1
                | Blocked \<Rightarrow> r1\<lparr>r_s := s\<rparr>
                | Continue \<Rightarrow>
                    (let r2 = r1\<lparr>r_s := s, r_lastRecv := r_now r1, r_accepting := True,
                                 r_readers := startReaders s (r_readers r1)\<rparr>
                     in if s_ptmx s \<noteq> None \<and> \<not> r_ptyArmed r2
                        then r2\<lparr>r_ptyArmed := True, r_shellArmed := True\<rparr> else r2))))"

definition on_heartbeat :: "u64 \<Rightarrow> run_state \<Rightarrow> run_state" where
  "on_heartbeat unixMilli r = r\<lparr>r_s := session_heartbeat (r_now r) unixMilli (r_lastRecv r) (r_s r)\<rparr>"

definition on_shellDone :: "bool \<Rightarrow> run_state \<Rightarrow> run_state option" where
  "on_shellDone exits r =
     (case gracefulShutdown (r_s r) of
        None \<Rightarrow> None
      | Some s \<Rightarrow> Some (Run_return exits (if r_shellErr r then Some ErrShellExited else None) s r))"

definition on_ctxDone :: "bool \<Rightarrow> run_state \<Rightarrow> run_state option" where
  "on_ctxDone exits r =
     (case gracefulShutdown (r_s r) of
        None \<Rightarrow> None
      | Some s \<Rightarrow> Some (Run_return exits (Some ErrContext) s r))"

section \<open>Steps\<close>

text \<open>
  A select case that panics is not a step here; that none does is a theorem. A decoder panic in a
  reader goroutine ends the process and is not a step either.
\<close>

inductive run_step :: "spawn_env \<Rightarrow> run_state \<Rightarrow> run_state \<Rightarrow> bool" for env where
  tick: "r_now r \<le> t \<Longrightarrow> run_step env r (r\<lparr>r_now := t\<rparr>)"
| readPTY: "s_ptmx (r_s r) \<noteq> None \<Longrightarrow> \<not> r_ptyClosed r \<Longrightarrow> d \<noteq> [] \<Longrightarrow> length d \<le> ptyReadBufSize \<Longrightarrow>
    length (r_ptyDataCh r) < 4 \<Longrightarrow>
    run_step env r (r\<lparr>r_ptyDataCh := r_ptyDataCh r @ [d], r_out := r_out r @ d\<rparr>)"
| readPTY_end: "s_ptmx (r_s r) \<noteq> None \<Longrightarrow> run_step env r (r\<lparr>r_ptyClosed := True\<rparr>)"
| waitShell: "s_ptmx (r_s r) \<noteq> None \<Longrightarrow> \<not> r_shellDone r \<Longrightarrow> run_step env r (r\<lparr>r_shellDone := True, r_shellErr := e\<rparr>)"
| acceptLoop: "r_accepting r \<Longrightarrow> r_acceptCh r = [] \<Longrightarrow> (\<forall>c. res = Some c \<longrightarrow> fresh_conn c) \<Longrightarrow>
    run_step env r (r\<lparr>r_acceptCh := [res], r_accepting := False\<rparr>)"
| readStream: "(i, name) \<in> set (r_readers r) \<Longrightarrow> length (r_streamCh r) < 8 \<Longrightarrow>
    readFrom (theConn (r_s r) i) name = Some (Inr m, c) \<Longrightarrow>
    run_step env r (r\<lparr>r_s := putConn (r_s r) i c,
      r_streamCh := r_streamCh r @ [\<lparr>ev_conn = i, ev_stream = name, ev_res = Inr m\<rparr>]\<rparr>)"
| readStream_end: "(i, name) \<in> set (r_readers r) \<Longrightarrow> length (r_streamCh r) < 8 \<Longrightarrow>
    readFrom (theConn (r_s r) i) name = Some (Inl e, c) \<Longrightarrow> e \<noteq> ProtoErr PanicSliceBounds \<Longrightarrow>
    run_step env r (r\<lparr>r_s := putConn (r_s r) i c, r_readers := removeAll (i, name) (r_readers r),
      r_streamCh := r_streamCh r @ [\<lparr>ev_conn = i, ev_stream = name, ev_res = Inl e\<rparr>]\<rparr>)"
| demuxLoop: "i < length (s_store (r_s r)) \<Longrightarrow> theConn (r_s r) i = TcpConn c \<Longrightarrow> demux_step c c' \<Longrightarrow>
    run_step env r (r\<lparr>r_s := putConn (r_s r) i (TcpConn c')\<rparr>)"
| cancel: "run_step env r (r\<lparr>r_ctxDone := True\<rparr>)"
| case_ptyData: "r_result r = None \<Longrightarrow> r_ptyArmed r \<Longrightarrow> r_ptyDataCh r = d # ds \<Longrightarrow>
    on_ptyData (r\<lparr>r_ptyDataCh := ds\<rparr>) d = Some r' \<Longrightarrow> run_step env r r'"
| case_ptyClosed: "r_result r = None \<Longrightarrow> r_ptyArmed r \<Longrightarrow> r_ptyDataCh r = [] \<Longrightarrow> r_ptyClosed r \<Longrightarrow>
    on_ptyClosed r = Some r' \<Longrightarrow> run_step env r r'"
| case_timer: "r_result r = None \<Longrightarrow> Coalescer_ready (s_coal (r_s r)) (r_now r) \<Longrightarrow>
    on_timer r = Some r' \<Longrightarrow> run_step env r r'"
| case_stream: "r_result r = None \<Longrightarrow> r_streamCh r = ev # evs \<Longrightarrow>
    run_step env r (on_stream exits (r\<lparr>r_streamCh := evs\<rparr>) ev)"
| case_accept: "r_result r = None \<Longrightarrow> r_acceptCh r = res # rs \<Longrightarrow>
    run_step env r (on_accept env exits (r\<lparr>r_acceptCh := rs\<rparr>) res)"
| case_heartbeat: "r_result r = None \<Longrightarrow> run_step env r (on_heartbeat ms r)"
| case_shellDone: "r_result r = None \<Longrightarrow> r_shellArmed r \<Longrightarrow> r_shellDone r \<Longrightarrow>
    on_shellDone exits r = Some r' \<Longrightarrow> run_step env r r'"
| case_ctxDone: "r_result r = None \<Longrightarrow> r_ctxDone r \<Longrightarrow> on_ctxDone exits r = Some r' \<Longrightarrow> run_step env r r'"

inductive run_reach :: "spawn_env \<Rightarrow> Config \<Rightarrow> run_state \<Rightarrow> bool" for env cfg where
  start: "run_reach env cfg (Run_start cfg now)"
| step: "run_reach env cfg r \<Longrightarrow> run_step env r r' \<Longrightarrow> run_reach env cfg r'"

section \<open>Invariant of the run\<close>

text \<open>
  Once \<open>Run\<close> has returned its coalescer is stopped, so the invariant is stated with an idle one.
\<close>

definition settled :: "run_state \<Rightarrow> Session" where
  "settled r = (if r_result r = None then r_s r else (r_s r)\<lparr>s_coal := Coalescer_New 0\<rparr>)"

definition run_inv :: "Config \<Rightarrow> bytes list \<Rightarrow> run_state \<Rightarrow> bool" where
  "run_inv cfg ps r \<longleftrightarrow>
     sess_inv ps (r_marks r) (settled r) \<and> s_cfg (r_s r) = cfg
     \<and> (r_result r = None \<longrightarrow> coal_idle (s_coal (r_s r)) \<and> length (co_buf (s_coal (r_s r))) < Threshold)
     \<and> (r_result r \<noteq> None \<longrightarrow> s_conn (r_s r) = None)
     \<and> (\<forall>d \<in> set (r_ptyDataCh r). d \<noteq> [] \<and> length d \<le> ptyReadBufSize)
     \<and> concat ps @ co_buf (s_coal (r_s r)) @ concat (r_ptyDataCh r) = r_out r
     \<and> (\<forall>(i, name) \<in> set (r_readers r). i < length (s_store (r_s r)))
     \<and> (\<forall>c. Some c \<in> set (r_acceptCh r) \<longrightarrow> fresh_conn c)"

text \<open>Goroutines that only read from a connection.\<close>

lemma putConn_any:
  assumes "sess_inv ps Ls s" and "i < length (s_store s)" and "conn_ok c" and "same_view (theConn s i) c"
    and "conn_closed (theConn s i) \<Longrightarrow> conn_closed c"
  shows "sess_inv ps Ls (putConn s i c)"
proof -
  have v: "views (s_store (putConn s i c)) Ls = views (s_store s) Ls"
    using views_update [OF assms(2)] assms(4) by (simp add: same_view_def theConn_def)
  have "conn_closed (s_store (putConn s i c) ! j)" if "j < length (s_store s)" "s_conn s \<noteq> Some j" for j
    using assms that by (cases "j = i") (auto simp: sess_inv_def sess_base_def theConn_def)
  with assms(1-3) v show ?thesis unfolding sess_inv_def sess_base_def
    by (auto dest: set_update_subset_insert [THEN subsetD])
qed

lemma readFrom_same:
  assumes "readFrom c name = Some (r, c')" and "conn_ok c"
  shows "conn_ok c'" and "same_view c c'" and "conn_closed c \<Longrightarrow> conn_closed c'"
proof -
  have "controlWriter c' = controlWriter c \<and> dataWriter c' = dataWriter c \<and> Conn_LastClientSeq c' = Conn_LastClientSeq c
      \<and> (conn_closed c \<longrightarrow> conn_closed c')"
    using assms(1)
    by (cases c; cases name) (auto simp: readFrom_def quicConn_ReadControl_def tcpConn_ReadControl_def
        quicConn_ReadData_def tcpConn_ReadData_def split: prod.splits if_splits list.splits dest: Stream_Read_writer)
  with assms(2) show "conn_ok c'" "same_view c c'" "conn_closed c \<Longrightarrow> conn_closed c'"
    by (simp_all add: conn_view_defs same_view_def)
qed

lemma demux_same:
  assumes "demux_step c c'" and "conn_ok (TcpConn c)"
  shows "conn_ok (TcpConn c')" and "same_view (TcpConn c) (TcpConn c')" and "tc_done c' = tc_done c"
proof -
  have "st_w (tc_conn c') = st_w (tc_conn c) \<and> tc_lastClientSeq c' = tc_lastClientSeq c \<and> tc_done c' = tc_done c"
    using assms(1) by cases (auto dest: Stream_Read_writer)
  with assms(2) show "conn_ok (TcpConn c')" "same_view (TcpConn c) (TcpConn c')" "tc_done c' = tc_done c"
    by (simp_all add: conn_view_defs same_view_def)
qed

lemma settled_put: "settled (r\<lparr>r_s := putConn (r_s r) i c\<rparr>) = putConn (settled r) i c"
  by (simp add: settled_def putConn_def)

lemma settled_store: "s_store (settled r) = s_store (r_s r)" "theConn (settled r) = theConn (r_s r)"
  by (simp_all add: settled_def theConn_def fun_eq_iff)

lemma run_inv_put:
  assumes "run_inv cfg ps r" and "i < length (s_store (r_s r))" and "conn_ok c"
    and "same_view (theConn (r_s r) i) c" and "conn_closed (theConn (r_s r) i) \<Longrightarrow> conn_closed c"
  shows "run_inv cfg ps (r\<lparr>r_s := putConn (r_s r) i c\<rparr>)"
proof -
  have "sess_inv ps (r_marks r) (putConn (settled r) i c)"
    using assms putConn_any [of ps "r_marks r" "settled r" i c] by (simp add: run_inv_def settled_store)
  with assms(1) show ?thesis unfolding run_inv_def settled_put by simp
qed

lemma run_inv_conn:
  assumes "run_inv cfg ps r" and "i < length (s_store (r_s r))"
  shows "conn_ok (theConn (r_s r) i)"
  using assms by (simp add: run_inv_def sess_inv_def sess_base_def theConn_def settled_store [symmetric])

text \<open>Returning from \<open>Run\<close>.\<close>

lemma closeConn_coal: "closeConn (s\<lparr>s_coal := x\<rparr>) = (closeConn s)\<lparr>s_coal := x\<rparr>"
  by (simp add: closeConn_def putConn_def theConn_def split: option.splits)

lemma Stop_buf [simp]: "co_buf (Coalescer_Stop c) = co_buf c"
  by (simp add: Coalescer_Stop_def)

definition queues_ok :: "run_state \<Rightarrow> nat \<Rightarrow> bool" where
  "queues_ok r n \<longleftrightarrow> (\<forall>d \<in> set (r_ptyDataCh r). d \<noteq> [] \<and> length d \<le> ptyReadBufSize)
     \<and> (\<forall>(i, name) \<in> set (r_readers r). i < n) \<and> (\<forall>c. Some c \<in> set (r_acceptCh r) \<longrightarrow> fresh_conn c)"

lemma run_inv_queues: "run_inv cfg ps r \<longleftrightarrow>
    sess_inv ps (r_marks r) (settled r) \<and> s_cfg (r_s r) = cfg
    \<and> (r_result r = None \<longrightarrow> coal_idle (s_coal (r_s r)) \<and> length (co_buf (s_coal (r_s r))) < Threshold)
    \<and> (r_result r \<noteq> None \<longrightarrow> s_conn (r_s r) = None)
    \<and> concat ps @ co_buf (s_coal (r_s r)) @ concat (r_ptyDataCh r) = r_out r
    \<and> queues_ok r (length (s_store (r_s r)))"
  unfolding run_inv_def queues_ok_def by blast

lemma Run_return_inv:
  assumes "sess_base ps (r_marks r) s" and "s_cfg s = cfg" and "queues_ok r (length (s_store s))"
    and "concat ps @ co_buf (s_coal s) @ concat (r_ptyDataCh r) = r_out r"
  shows "run_inv cfg ps (Run_return exits res s r)"
proof -
  let ?r' = "Run_return exits res s r"
  have sel: "r_marks ?r' = r_marks r" "r_result ?r' = Some res" "r_ptyDataCh ?r' = r_ptyDataCh r" "r_readers ?r' = r_readers r"
      "r_acceptCh ?r' = r_acceptCh r" "r_out ?r' = r_out r" "s_store (r_s ?r') = s_store (closeConn s)"
      "s_cfg (r_s ?r') = s_cfg s" "s_conn (r_s ?r') = None" "co_buf (s_coal (r_s ?r')) = co_buf (s_coal s)"
      "s_buf (r_s ?r') = s_buf s" "s_sendSeq (r_s ?r') = s_sendSeq s"
    by (simp_all add: Run_return_def cleanupShell_def closeConn_coal Let_def split: option.splits)
  have "sess_base ps (r_marks r) (s\<lparr>s_coal := Coalescer_New 0\<rparr>)"
    using assms(1) coal_idle_New [of 0, THEN coal_idle_inv] by (simp add: sess_base_def Threshold_def coal_defs)
  then have "sess_inv ps (r_marks r) ((closeConn s)\<lparr>s_coal := Coalescer_New 0\<rparr>)"
    using closeConn_inv by (metis closeConn_coal)
  then have "sess_inv ps (r_marks r) (settled ?r')"
    using sess_inv_cong [of "settled ?r'" "(closeConn s)\<lparr>s_coal := Coalescer_New 0\<rparr>"] sel by (simp add: settled_def)
  with assms sel show ?thesis by (simp add: run_inv_queues queues_ok_def)
qed

text \<open>Storing back a session after a flush.\<close>

lemma run_flush:
  assumes "sess_inv ps (r_marks r) s" and "r_result r = None" and "s_cfg s = cfg" and "queues_ok r (length (s_store s))"
    and "concat ps @ co_buf (s_coal s) @ concat (r_ptyDataCh r) = r_out r"
  shows "\<exists>s'. flushCoalesced s = Some s' \<and> run_inv cfg (flushed ps (s_coal s)) (r\<lparr>r_s := s'\<rparr>)"
proof -
  obtain s' where s': "flushCoalesced s = Some s'" "sess_inv (flushed ps (s_coal s)) (r_marks r) s'"
      "coal_idle (s_coal s')" "co_buf (s_coal s') = []" "s_cfg s' = s_cfg s"
    using flush_inv [OF assms(1)] by auto
  have "length (s_store s') = length (s_store s)"
    using s'(2) assms(1) by (simp add: sess_inv_def sess_base_def)
  with s' assms(2-5) show ?thesis by (simp add: run_inv_queues settled_def queues_ok_def Threshold_def)
qed

lemma recv_sess: "sess_inv ps Ls s \<Longrightarrow> sess_inv ps Ls (s\<lparr>s_coal := Coalescer_recv (s_coal s)\<rparr>)"
  using coal_inv_recv by (simp add: sess_inv_def sess_base_def)

lemma on_ptyData_inv:
  assumes "run_inv cfg ps r" and "r_result r = None" and "r_ptyDataCh r = d # ds"
  shows "\<exists>r' ps'. on_ptyData (r\<lparr>r_ptyDataCh := ds\<rparr>) d = Some r' \<and> run_inv cfg ps' r' \<and> r_out r' = r_out r"
proof -
  let ?r1 = "r\<lparr>r_ptyDataCh := ds\<rparr>"
  obtain coal full where add: "Coalescer_Add (r_now r) (s_coal (r_s r)) d = (coal, full)" by fastforce
  let ?s = "(r_s r)\<lparr>s_coal := coal\<rparr>"
  have r: "sess_inv ps (r_marks r) (r_s r)" "coal_idle (s_coal (r_s r))" "length (co_buf (s_coal (r_s r))) < Threshold"
      "length d \<le> ptyReadBufSize" "d \<noteq> []" "s_cfg (r_s r) = cfg" "queues_ok ?r1 (length (s_store (r_s r)))"
      "concat ps @ co_buf (s_coal (r_s r)) @ d @ concat ds = r_out r"
    using assms by (auto simp: run_inv_queues settled_def queues_ok_def)
  have coal: "coal_idle coal" "co_buf coal = co_buf (s_coal (r_s r)) @ d"
      "full \<longleftrightarrow> Threshold \<le> length (co_buf coal)" "sess_inv ps (r_marks r) ?s"
    using coal_idle_Add [OF r(2), of "r_now r" d] Add_buf [of "r_now r" "s_coal (r_s r)" d]
      Add_threshold [of "r_now r" "s_coal (r_s r)" d] Add_inv [OF r(1,3,4,2), of "r_now r"] add r(5)
    by simp_all
  show ?thesis
  proof (cases full)
    case True
    obtain s' where "flushCoalesced ?s = Some s'" "run_inv cfg (flushed ps (s_coal ?s)) (?r1\<lparr>r_s := s'\<rparr>)"
      using run_flush [of ps ?r1 ?s cfg] coal r assms(2) by auto
    with add True show ?thesis by (fastforce simp: on_ptyData_def)
  next
    case False
    have "run_inv cfg ps (?r1\<lparr>r_s := ?s\<rparr>)"
      using coal r assms(2) False by (simp add: run_inv_queues settled_def queues_ok_def)
    with add False show ?thesis by (fastforce simp: on_ptyData_def)
  qed
qed

lemma on_flush_inv:
  assumes "run_inv cfg ps r" and "r_result r = None"
  shows "\<exists>r'. on_ptyClosed r = Some r' \<and> run_inv cfg (flushed ps (s_coal (r_s r))) r' \<and> r_out r' = r_out r"
    and "\<exists>r'. on_timer r = Some r' \<and> run_inv cfg (flushed ps (s_coal (r_s r))) r' \<and> r_out r' = r_out r"
proof -
  have r: "sess_inv ps (r_marks r) (r_s r)" "s_cfg (r_s r) = cfg" "queues_ok r (length (s_store (r_s r)))"
      "concat ps @ co_buf (s_coal (r_s r)) @ concat (r_ptyDataCh r) = r_out r"
    using assms by (auto simp: run_inv_queues settled_def)
  obtain s1 where s1: "flushCoalesced (r_s r) = Some s1" "run_inv cfg (flushed ps (s_coal (r_s r))) (r\<lparr>r_s := s1\<rparr>)"
    using run_flush [OF r(1) assms(2) r(2,3,4)] by blast
  then show "\<exists>r'. on_ptyClosed r = Some r' \<and> run_inv cfg (flushed ps (s_coal (r_s r))) r' \<and> r_out r' = r_out r"
    using assms(2) by (simp add: on_ptyClosed_def run_inv_queues settled_def queues_ok_def)
  have "flushed ps (Coalescer_recv c) = flushed ps c" for c by (simp add: flushed_def)
  with run_flush [OF recv_sess [OF r(1)] assms(2)] r
  show "\<exists>r'. on_timer r = Some r' \<and> run_inv cfg (flushed ps (s_coal (r_s r))) r' \<and> r_out r' = r_out r"
    by (fastforce simp: on_timer_def)
qed

lemma run_inv_cong:
  "r_s r' = r_s r \<Longrightarrow> r_marks r' = r_marks r \<Longrightarrow> r_result r' = r_result r \<Longrightarrow> r_ptyDataCh r' = r_ptyDataCh r \<Longrightarrow>
   r_out r' = r_out r \<Longrightarrow> r_readers r' = r_readers r \<Longrightarrow> r_acceptCh r' = r_acceptCh r \<Longrightarrow>
   run_inv cfg ps r \<longleftrightarrow> run_inv cfg ps r'"
  by (simp add: run_inv_def settled_def)

lemma noteInput_sel [simp]:
  "r_s (noteInput ev r) = r_s r" "r_marks (noteInput ev r) = r_marks r" "r_result (noteInput ev r) = r_result r"
  "r_ptyDataCh (noteInput ev r) = r_ptyDataCh r" "r_out (noteInput ev r) = r_out r" "r_readers (noteInput ev r) = r_readers r"
  "r_acceptCh (noteInput ev r) = r_acceptCh r" "r_streamCh (noteInput ev r) = r_streamCh r" "r_stray (noteInput ev r) = r_stray r"
  by (simp_all add: noteInput_def)

lemma on_stream_inv:
  assumes "run_inv cfg ps r" and "r_result r = None" and "r_streamCh r = ev # evs"
  shows "run_inv cfg ps (on_stream exits (r\<lparr>r_streamCh := evs\<rparr>) ev) \<and> r_out (on_stream exits (r\<lparr>r_streamCh := evs\<rparr>) ev) = r_out r"
proof -
  define r1 where "r1 = (let r0 = r\<lparr>r_streamCh := evs\<rparr> in
    if Some (ev_conn ev) = s_conn (r_s r0) \<and> \<not> isl (ev_res ev) then r0\<lparr>r_lastRecv := r_now r0\<rparr> else r0)"
  have sel: "r_s r1 = r_s r" "r_marks r1 = r_marks r" "r_result r1 = None" "r_out r1 = r_out r"
      "r_ptyDataCh r1 = r_ptyDataCh r" "r_readers r1 = r_readers r" "r_acceptCh r1 = r_acceptCh r"
    using assms(2) by (simp_all add: r1_def Let_def)
  obtain s e where h: "handleStreamEvent (r_s r) ev = (s, e)" by fastforce
  have r: "sess_inv ps (r_marks r) (r_s r)" "s_cfg (r_s r) = cfg" "queues_ok r (length (s_store (r_s r)))"
      "concat ps @ co_buf (s_coal (r_s r)) @ concat (r_ptyDataCh r) = r_out r"
    using assms by (auto simp: run_inv_queues settled_def)
  note hs = handleStreamEvent_inv [OF r(1) h]
  have len: "length (s_store s) = length (s_store (r_s r))" using hs(1) r(1) by (simp add: sess_inv_def sess_base_def)
  have run: "on_stream exits (r\<lparr>r_streamCh := evs\<rparr>) ev =
      (case e of Some x \<Rightarrow> Run_return exits (Some x) s r1 | None \<Rightarrow> (noteInput ev r1)\<lparr>r_s := s\<rparr>)"
    using h sel(1) by (simp add: on_stream_def r1_def Let_def split: option.splits)
  have ret: "run_inv cfg ps (Run_return exits (Some x) s r1)" for x
    using Run_return_inv [of ps r1 s cfg exits "Some x"] inv_base hs r sel len by (simp add: queues_ok_def)
  have outs: "r_out (Run_return exits (Some x) s r1) = r_out r" for x
    using sel by (simp add: Run_return_def cleanupShell_def Let_def split: option.splits)
  have "run_inv cfg ps ((noteInput ev r1)\<lparr>r_s := s\<rparr>)"
    using hs r sel len assms(1,2) by (simp add: run_inv_queues settled_def queues_ok_def)
  with run ret outs sel(4) show ?thesis by (simp split: option.splits)
qed

lemma length_batches: "\<forall>p \<in> set ps. p \<noteq> [] \<Longrightarrow> length ps \<le> length (concat ps)"
proof (induction ps)
  case (Cons p ps)
  then have "1 \<le> length p" by (cases p) auto
  with Cons show ?case by simp
qed simp

lemma sess_inv_nonempty: "sess_base ps Ls s \<Longrightarrow> p \<in> set ps \<Longrightarrow> p \<noteq> []"
  by (auto simp: sess_base_def sender_inv_def sendable_def)

lemma sess_base_sendSeq: "sess_base ps Ls s \<Longrightarrow> length ps < 2 ^ 64 \<Longrightarrow> unat (s_sendSeq s) = length ps"
  by (simp add: sess_base_def sender_inv_def unat_of_nat)

lemma few_batches:
  assumes "run_inv cfg ps r" and "r_result r = None" and "length (r_out r) < 2 ^ 64"
  shows "length (flushed ps (s_coal (r_s r))) < 2 ^ 64"
proof -
  let ?ps = "flushed ps (s_coal (r_s r))"
  obtain s1 where "sess_inv ?ps (r_marks r) s1"
    using flush_inv [of ps "r_marks r" "r_s r"] assms(1,2) by (auto simp: run_inv_def settled_def)
  then have "length ?ps \<le> length (concat ?ps)" using length_batches sess_inv_nonempty inv_base by blast
  moreover have "concat ?ps @ concat (r_ptyDataCh r) = r_out r" using assms(1) by (simp add: run_inv_def)
  then have "length (concat ?ps) \<le> length (r_out r)" by (metis length_append le_add1)
  ultimately show ?thesis using assms(3) by linarith
qed

lemma on_accept_inv:
  assumes "run_inv cfg ps r" and "r_result r = None" and "r_acceptCh r = res # rs" and "length (r_out r) < 2 ^ 64"
  shows "\<exists>ps'. run_inv cfg ps' (on_accept env exits (r\<lparr>r_acceptCh := rs\<rparr>) res)"
    and "r_out (on_accept env exits (r\<lparr>r_acceptCh := rs\<rparr>) res) = r_out r"
proof -
  let ?r0 = "r\<lparr>r_acceptCh := rs\<rparr>"
  show "r_out (on_accept env exits ?r0 res) = r_out r"
    by (simp add: on_accept_def Run_return_def cleanupShell_def Let_def split: option.splits prod.splits outcome.splits)
  have r: "sess_inv ps (r_marks r) (r_s r)" "s_cfg (r_s r) = cfg" "queues_ok ?r0 (length (s_store (r_s r)))"
      "concat ps @ co_buf (s_coal (r_s r)) @ concat (r_ptyDataCh r) = r_out r"
      "coal_idle (s_coal (r_s r))" "length (co_buf (s_coal (r_s r))) < Threshold"
    using assms by (auto simp: run_inv_queues settled_def queues_ok_def)
  show "\<exists>ps'. run_inv cfg ps' (on_accept env exits ?r0 res)"
  proof (cases res)
    case None
    have "run_inv cfg ps (Run_return exits (Some ErrContext) (r_s r) ?r0)"
      using Run_return_inv [of ps ?r0 "r_s r"] inv_base r by simp
    moreover have "run_inv cfg ps (?r0\<lparr>r_accepting := True\<rparr>)"
      using r assms(2) by (simp add: run_inv_queues settled_def queues_ok_def)
    ultimately show ?thesis using None by (auto simp: on_accept_def)
  next
    case (Some c)
    have c: "fresh_conn c" using assms(1,3) Some by (simp add: run_inv_def)
    define ps' where "ps' = flushed ps (s_coal (r_s r))"
    obtain s out where h: "handleNewConn env (r_s r) c = (s, out)" by fastforce
    have out: "concat ps' @ concat (r_ptyDataCh r) = r_out r" using r(4) by (simp add: ps'_def)
    have small: "length ps' < 2 ^ 64" using few_batches [OF assms(1,2,4)] by (simp add: ps'_def)
    note hn = handleNewConn_inv [OF r(1) c ps'_def small h]
    define r1 where "r1 = ?r0\<lparr>r_marks := r_marks r @ [unat (s_sendSeq s)], r_stray := r_stray r @ strayIn c,
      r_epochs := r_epochs r @ [\<lparr>ep_dialSeq = s_recvSeq (r_s r), ep_arriving = dataIn c, ep_delivered = []\<rparr>]\<rparr>"
    have m: "r_marks r1 = r_marks r @ [length ps']" using hn sess_base_sendSeq [OF _ small] by (auto simp: r1_def)
    have len: "length (s_store s) = Suc (length (s_store (r_s r)))"
      using hn r(1) by (auto simp: sess_inv_def sess_base_def)
    then have q: "queues_ok r1 (length (s_store s))" using r(3) by (auto simp: queues_ok_def r1_def)
    have ret: "run_inv cfg ps' (Run_return exits e s r1)" for e
      using Run_return_inv [of ps' r1 s cfg exits e] hn m q r(2) out by (simp add: r1_def)
    let ?rd = "startReaders s (r_readers r1)"
    have go: "run_inv cfg ps' (r1\<lparr>r_s := s, r_readers := ?rd\<rparr>)" if "out \<noteq> Panicked"
    proof -
      have "\<forall>i. s_conn s = Some i \<longrightarrow> i < length (s_store s)" using hn by (auto simp: sess_base_def)
      with q have "queues_ok (r1\<lparr>r_s := s, r_readers := ?rd\<rparr>) (length (s_store s))"
        by (auto simp: queues_ok_def startReaders_def split: option.splits)
      moreover have "sess_inv ps' (r_marks r1) s" using hn that m by auto
      ultimately show ?thesis
        using hn out r(2) assms(2) by (simp add: run_inv_queues settled_def r1_def Threshold_def)
    qed
    have run: "on_accept env exits ?r0 (Some c) =
        (case out of Return e \<Rightarrow> Run_return exits (Some e) s r1
         | Panicked \<Rightarrow> Run_return exits (Some ErrPanic) s r1
         | Blocked \<Rightarrow> r1\<lparr>r_s := s\<rparr>
         | Continue \<Rightarrow>
             (let r2 = r1\<lparr>r_s := s, r_lastRecv := r_now r1, r_accepting := True, r_readers := ?rd\<rparr>
              in if s_ptmx s \<noteq> None \<and> \<not> r_ptyArmed r2 then r2\<lparr>r_ptyArmed := True, r_shellArmed := True\<rparr> else r2))"
      using h by (cases out) (simp_all add: on_accept_def r1_def Let_def)
    have "run_inv cfg ps' (on_accept env exits ?r0 (Some c))"
    proof (cases out)
      case Continue
      then show ?thesis
        unfolding run using go by (simp add: Let_def) (auto intro: run_inv_cong [THEN iffD1, rotated -1])
    qed (use run ret hn in auto)
    with Some show ?thesis by blast
  qed
qed

lemma on_return_inv:
  assumes "run_inv cfg ps r" and "r_result r = None"
  shows "\<exists>r'. on_shellDone exits r = Some r' \<and> run_inv cfg (flushed ps (s_coal (r_s r))) r' \<and> r_out r' = r_out r
      \<and> co_buf (s_coal (r_s r')) = [] \<and> r_ptyDataCh r' = r_ptyDataCh r"
    and "\<exists>r'. on_ctxDone exits r = Some r' \<and> run_inv cfg (flushed ps (s_coal (r_s r))) r' \<and> r_out r' = r_out r
      \<and> co_buf (s_coal (r_s r')) = [] \<and> r_ptyDataCh r' = r_ptyDataCh r"
proof -
  have r: "sess_inv ps (r_marks r) (r_s r)" "s_cfg (r_s r) = cfg" "queues_ok r (length (s_store (r_s r)))"
      "concat ps @ co_buf (s_coal (r_s r)) @ concat (r_ptyDataCh r) = r_out r"
    using assms by (auto simp: run_inv_queues settled_def)
  obtain s where s: "gracefulShutdown (r_s r) = Some s" "sess_inv (flushed ps (s_coal (r_s r))) (r_marks r) s"
      "co_buf (s_coal s) = []" "s_cfg s = s_cfg (r_s r)"
    using gracefulShutdown_inv [OF r(1)] by blast
  have "length (s_store s) = length (s_store (r_s r))" using s(2) r(1) by (simp add: sess_inv_def sess_base_def)
  then have ret: "run_inv cfg (flushed ps (s_coal (r_s r))) (Run_return exits res s r)" for res
    using Run_return_inv [OF inv_base [OF s(2)]] s r by simp
  have "r_out (Run_return exits res s r) = r_out r" "co_buf (s_coal (r_s (Run_return exits res s r))) = []"
      "r_ptyDataCh (Run_return exits res s r) = r_ptyDataCh r" for res
    using s(3) by (simp_all add: Run_return_def cleanupShell_def closeConn_coal Let_def split: option.splits)
  with ret s(1) show
      "\<exists>r'. on_shellDone exits r = Some r' \<and> run_inv cfg (flushed ps (s_coal (r_s r))) r' \<and> r_out r' = r_out r
        \<and> co_buf (s_coal (r_s r')) = [] \<and> r_ptyDataCh r' = r_ptyDataCh r"
      "\<exists>r'. on_ctxDone exits r = Some r' \<and> run_inv cfg (flushed ps (s_coal (r_s r))) r' \<and> r_out r' = r_out r
        \<and> co_buf (s_coal (r_s r')) = [] \<and> r_ptyDataCh r' = r_ptyDataCh r"
    by (simp_all add: on_shellDone_def on_ctxDone_def)
qed

lemma shellDone_store: "on_shellDone exits r = Some r' \<Longrightarrow> length (s_store (r_s r')) = length (s_store (r_s r))"
  by (auto simp: on_shellDone_def gracefulShutdown_def flushCoalesced_def Run_return_def cleanupShell_def Let_def closeConn_coal
      split: option.splits prod.splits)

lemma on_heartbeat_inv:
  assumes "run_inv cfg ps r" and "r_result r = None"
  shows "run_inv cfg ps (on_heartbeat ms r)"
proof -
  let ?s = "session_heartbeat (r_now r) ms (r_lastRecv r) (r_s r)"
  have r: "sess_inv ps (r_marks r) (r_s r)" using assms by (simp add: run_inv_queues settled_def)
  note h = heartbeat_inv [OF r, of "r_now r" ms "r_lastRecv r"]
  have "length (s_store ?s) = length (s_store (r_s r))" using h(1) r by (simp add: sess_inv_def sess_base_def)
  with h assms show ?thesis by (simp add: on_heartbeat_def run_inv_queues settled_def queues_ok_def)
qed

lemma Run_return_out [simp]: "r_out (Run_return exits res s r) = r_out r"
  by (simp add: Run_return_def cleanupShell_def Let_def split: option.splits)

lemma run_step_out: "run_step env r r' \<Longrightarrow> \<exists>x. r_out r' = r_out r @ x"
  by (induction rule: run_step.induct)
     (auto simp: on_ptyData_def on_ptyClosed_def on_timer_def on_stream_def on_accept_def on_heartbeat_def
       on_shellDone_def on_ctxDone_def Let_def split: option.splits prod.splits if_splits outcome.splits)

lemma read_event_inv:
  assumes "run_inv cfg ps r" and "(i, name) \<in> set (r_readers r)" and "readFrom (theConn (r_s r) i) name = Some (res, c)"
    and "set rd \<subseteq> set (r_readers r)"
  shows "run_inv cfg ps (r\<lparr>r_s := putConn (r_s r) i c, r_readers := rd, r_streamCh := evs\<rparr>)"
proof -
  have i: "i < length (s_store (r_s r))" using assms(1,2) by (auto simp: run_inv_def)
  note same = readFrom_same [OF assms(3) run_inv_conn [OF assms(1) i]]
  have "run_inv cfg ps (r\<lparr>r_s := putConn (r_s r) i c\<rparr>)" using run_inv_put [OF assms(1) i same] .
  with assms(4) show ?thesis by (auto simp: run_inv_queues settled_def queues_ok_def)
qed

lemma run_step_inv:
  assumes "run_step env r r'" and "run_inv cfg ps r" and "length (r_out r) < 2 ^ 64"
  shows "\<exists>ps'. run_inv cfg ps' r'"
  using assms(1)
proof cases
  case (readPTY d)
  with assms(2) have "run_inv cfg ps r'" by (auto simp: run_inv_queues settled_def queues_ok_def)
  then show ?thesis by blast
next
  case (acceptLoop res)
  with assms(2) have "run_inv cfg ps r'" by (auto simp: run_inv_queues settled_def queues_ok_def)
  with acceptLoop show ?thesis by auto
next
  case (readStream i name m c)
  with read_event_inv [OF assms(2), of i name _ c "r_readers r"] show ?thesis by auto
next
  case (readStream_end i name e c)
  with read_event_inv [OF assms(2), of i name _ c "removeAll (i, name) (r_readers r)"] show ?thesis by auto
next
  case (demuxLoop i c c')
  note ok = run_inv_conn [OF assms(2) demuxLoop(2), unfolded demuxLoop(3)]
  with run_inv_put [OF assms(2) demuxLoop(2), of "TcpConn c'"] demux_same [OF demuxLoop(4) ok] demuxLoop
  show ?thesis by auto
next
  case (case_ptyData d ds)
  with on_ptyData_inv [OF assms(2)] show ?thesis by fastforce
next
  case case_ptyClosed
  with on_flush_inv(1) [OF assms(2)] show ?thesis by fastforce
next
  case case_timer
  with on_flush_inv(2) [OF assms(2)] show ?thesis by fastforce
next
  case (case_stream ev evs exits)
  with on_stream_inv [OF assms(2)] show ?thesis by fastforce
next
  case (case_accept res rs exits)
  with on_accept_inv [OF assms(2) _ _ assms(3)] show ?thesis by fastforce
next
  case (case_heartbeat ms)
  with on_heartbeat_inv [OF assms(2)] show ?thesis by (auto simp: on_heartbeat_def)
next
  case (case_shellDone exits)
  with on_return_inv(1) [OF assms(2), of exits] show ?thesis by auto
next
  case (case_ctxDone exits)
  with on_return_inv(2) [OF assms(2), of exits] show ?thesis by auto
qed (use assms(2) in \<open>auto simp: run_inv_queues settled_def queues_ok_def\<close>)

lemma Run_start_inv: "run_inv cfg [] (Run_start cfg now)"
  using Session_New_inv [of cfg now] coal_idle_New [of now]
  by (simp add: run_inv_def Run_start_def settled_def Session_New_def Threshold_def coal_defs)

lemma run_reach_inv:
  "run_reach env cfg r \<Longrightarrow> length (r_out r) < 2 ^ 64 \<Longrightarrow> \<exists>ps. run_inv cfg ps r"
proof (induction rule: run_reach.induct)
  case (start now)
  show ?case using Run_start_inv by blast
next
  case (step r r')
  obtain x where "r_out r' = r_out r @ x" using run_step_out [OF step.hyps(2)] by blast
  with step.prems have "length (r_out r) < 2 ^ 64" by simp
  with step.IH step.hyps(2) run_step_inv show ?case by blast
qed

section \<open>A sample run\<close>

text \<open>A client attaches and the shell is started.\<close>

lemma demo_attached:
  "\<exists>r. run_reach demoEnv demoConfig r \<and> r_result r = None \<and> r_ptyArmed r \<and> r_shellArmed r \<and> s_ptmx (r_s r) \<noteq> None
     \<and> r_ptyDataCh r = [] \<and> \<not> r_ptyClosed r \<and> \<not> r_shellDone r \<and> r_out r = [] \<and> r_acceptCh r = []
     \<and> s_conn (r_s r) = Some 0 \<and> length (s_store (r_s r)) = 1 \<and> r_accepting r"
proof -
  let ?c = "demoConn (TerminalInfo ''vt100'') 0" and ?s0 = "Session_New demoConfig 0"
  define r0 where "r0 = Run_start demoConfig 0"
  define r1 where "r1 = r0\<lparr>r_acceptCh := [Some ?c], r_accepting := False\<rparr>"
  have r1: "r_s r1 = ?s0" "r_result r1 = None" "r_acceptCh r1 = [Some ?c]" "r_ptyArmed r1 = False" "r_ptyDataCh r1 = []"
      "\<not> r_ptyClosed r1" "\<not> r_shellDone r1" "r_out r1 = []"
    by (simp_all add: r1_def r0_def Run_start_def)
  have "flushed [] (s_coal ?s0) = []" by (simp add: flushed_def Session_New_def coal_defs)
  then obtain s where s: "handleNewConn demoEnv ?s0 ?c = (s, Continue)" "s_conn s = Some 0" "s_ptmx s \<noteq> None"
      "length (s_store s) = 1"
    using attach_ok [OF Session_New_inv [of demoConfig 0], of ?c "''vt100''" "[]" demoEnv]
    by (auto simp: demoEnv_def Session_New_def)
  have "run_step demoEnv r0 r1"
    unfolding r1_def by (rule run_step.acceptLoop) (simp_all add: r0_def Run_start_def)
  then have reach1: "run_reach demoEnv demoConfig r1" unfolding r0_def by (rule run_reach.step [OF run_reach.start])
  define r2 where "r2 = on_accept demoEnv True (r1\<lparr>r_acceptCh := []\<rparr>) (Some ?c)"
  have "run_step demoEnv r1 r2" unfolding r2_def using r1 by (intro run_step.case_accept) simp_all
  with reach1 have "run_reach demoEnv demoConfig r2" by (rule run_reach.step)
  moreover have "r_result r2 = None" "r_ptyArmed r2" "r_shellArmed r2" "r_s r2 = s" "r_ptyDataCh r2 = []" "\<not> r_ptyClosed r2"
      "\<not> r_shellDone r2" "r_out r2 = []" "r_acceptCh r2 = []" "r_accepting r2"
    using r1 s by (simp_all add: r2_def on_accept_def Let_def)
  ultimately show ?thesis using s by blast
qed

text \<open>The shell prints a chunk.\<close>

lemma demo_output:
  assumes "d \<noteq> []" and "length d \<le> ptyReadBufSize"
  shows "\<exists>r. run_reach demoEnv demoConfig r \<and> r_result r = None \<and> r_ptyArmed r \<and> r_shellArmed r \<and> s_ptmx (r_s r) \<noteq> None
     \<and> r_ptyDataCh r = [d] \<and> \<not> r_shellDone r \<and> r_out r = d \<and> r_acceptCh r = []
     \<and> s_conn (r_s r) = Some 0 \<and> length (s_store (r_s r)) = 1 \<and> r_accepting r"
proof -
  obtain r where r: "run_reach demoEnv demoConfig r" "r_result r = None" "r_ptyArmed r" "r_shellArmed r" "s_ptmx (r_s r) \<noteq> None"
      "r_ptyDataCh r = []" "\<not> r_ptyClosed r" "\<not> r_shellDone r" "r_out r = []" "r_acceptCh r = []"
      "s_conn (r_s r) = Some 0" "length (s_store (r_s r)) = 1" "r_accepting r"
    using demo_attached by blast
  let ?r' = "r\<lparr>r_ptyDataCh := r_ptyDataCh r @ [d], r_out := r_out r @ d\<rparr>"
  have "run_step demoEnv r ?r'" using r assms by (intro run_step.readPTY) simp_all
  with r(1) have "run_reach demoEnv demoConfig ?r'" by (rule run_reach.step)
  with r show ?thesis by (intro exI [of _ ?r']) simp
qed

section \<open>Properties\<close>

text \<open>C3: What every connection carries. In every state the session can reach, its output so far splits into
  numbered batches, the bytes waiting in the coalescer and the chunks still in the PTY channel, in order and
  without loss; and every connection ever attached carries a contiguous run of the batches, the live one up to
  the newest. A connection whose client reported a number it was sent before (or none) starts exactly after that
  number, or else the batches waiting for it exceeded the catchup buffer.\<close>

theorem session_connections:
  assumes "run_reach env cfg r" and "length (r_out r) < 2 ^ 64"
  shows "\<exists>ps. concat ps @ co_buf (s_coal (r_s r)) @ concat (r_ptyDataCh r) = r_out r \<and> (\<forall>p \<in> set ps. p \<noteq> [])
    \<and> length (r_marks r) = length (s_store (r_s r))
    \<and> parts (cfg_ReplaySize cfg) ps (views (s_store (r_s r)) (r_marks r)) (s_conn (r_s r) \<noteq> None)"
proof -
  obtain ps where ps: "run_inv cfg ps r" using run_reach_inv [OF assms] by blast
  have "s_conn (settled r) = s_conn (r_s r)" "s_cfg (settled r) = s_cfg (r_s r)" by (simp_all add: settled_def)
  with ps have "parts (cfg_ReplaySize cfg) ps (views (s_store (r_s r)) (r_marks r)) (s_conn (r_s r) \<noteq> None)"
      "length (r_marks r) = length (s_store (r_s r))"
    by (auto simp: run_inv_def sess_inv_def sess_base_def settled_store)
  moreover have "\<forall>p \<in> set ps. p \<noteq> []" using ps sess_inv_nonempty by (auto simp: run_inv_def sess_inv_def)
  ultimately show ?thesis using ps by (auto simp: run_inv_def)
qed

theorem session_connections_witness:
  "\<exists>r ps. run_reach demoEnv demoConfig r \<and> length (s_store (r_s r)) = 1 \<and> r_out r = [104, 105]
     \<and> concat ps @ co_buf (s_coal (r_s r)) @ concat (r_ptyDataCh r) = [104, 105]
     \<and> parts 0 ps (views (s_store (r_s r)) (r_marks r)) True"
proof -
  obtain r where "run_reach demoEnv demoConfig r" "r_out r = [104, 105]" "s_conn (r_s r) = Some 0" "length (s_store (r_s r)) = 1"
    using demo_output [of "[104, 105]"] by (auto simp: ptyReadBufSize_def)
  with session_connections [of demoEnv demoConfig r] show ?thesis by (auto simp: demoConfig_def)
qed

text \<open>C22: One client at a time. In every reachable state all connections but the current one are closed, and once
  \<open>Run\<close> has returned all of them are.\<close>

theorem one_open_connection:
  assumes "run_reach env cfg r" and "length (r_out r) < 2 ^ 64" and "i < length (s_store (r_s r))"
  shows "conn_closed (s_store (r_s r) ! i)
    \<or> s_conn (r_s r) = Some i \<and> Suc i = length (s_store (r_s r)) \<and> r_result r = None"
proof -
  obtain ps where ps: "run_inv cfg ps r" using run_reach_inv [OF assms(1,2)] by blast
  then have "sess_base ps (r_marks r) (settled r)" by (simp add: run_inv_def sess_inv_def)
  moreover have "s_conn (settled r) = s_conn (r_s r)" by (simp add: settled_def)
  ultimately have "conn_closed (s_store (r_s r) ! i) \<or> s_conn (r_s r) = Some i \<and> Suc i = length (s_store (r_s r))"
    using assms(3) unfolding sess_base_def settled_store by metis
  with ps show ?thesis by (auto simp: run_inv_def)
qed

theorem one_open_connection_witness:
  "\<exists>r. run_reach demoEnv demoConfig r \<and> length (s_store (r_s r)) = 1
     \<and> (conn_closed (s_store (r_s r) ! 0) \<or> s_conn (r_s r) = Some 0 \<and> r_result r = None)"
proof -
  obtain r where "run_reach demoEnv demoConfig r" "r_out r = []" "length (s_store (r_s r)) = 1"
    using demo_attached by blast
  with one_open_connection [of demoEnv demoConfig r 0] show ?thesis by auto
qed



text \<open>C26: Output can be lost when the shell exits. The select statement may take the case of the exited shell
  while chunks of its output are still in the PTY channel: for every chunk the shell may print, some run ends
  normally (\<open>Run\<close> returns nil) with that chunk neither sent to the attached client nor stored for replay.\<close>

theorem exit_may_drop_output:
  assumes "d \<noteq> []" and "length d \<le> ptyReadBufSize"
  shows "\<exists>env cfg r. run_reach env cfg r \<and> r_result r = Some None \<and> r_out r = d \<and> r_ptyDataCh r = [d]
    \<and> length (s_store (r_s r)) = 1 \<and> dataSent (s_store (r_s r) ! 0) = []"
proof -
  obtain r where r: "run_reach demoEnv demoConfig r" "r_result r = None" "r_shellArmed r" "s_ptmx (r_s r) \<noteq> None"
      "r_ptyDataCh r = [d]" "\<not> r_shellDone r" "r_out r = d" "length (s_store (r_s r)) = 1"
    using demo_output [OF assms] by blast
  let ?r1 = "r\<lparr>r_shellDone := True, r_shellErr := False\<rparr>"
  have reach1: "run_reach demoEnv demoConfig ?r1"
    using r by (intro run_reach.step [OF r(1)] run_step.waitShell) simp_all
  moreover have "length (r_out ?r1) < 2 ^ 64" using r(7) assms(2) by (simp add: ptyReadBufSize_def)
  ultimately obtain ps where "run_inv demoConfig ps ?r1" using run_reach_inv by blast
  then obtain r2 ps2 where r2: "on_shellDone True ?r1 = Some r2" "run_inv demoConfig ps2 r2" "r_out r2 = d"
      "r_ptyDataCh r2 = [d]"
    using on_return_inv(1) [of demoConfig ps ?r1 True] r by auto
  have res: "r_result r2 = Some None"
    using r2(1) by (auto simp: on_shellDone_def Run_return_def cleanupShell_def Let_def split: option.splits)
  have "run_reach demoEnv demoConfig r2"
    using r r2(1) by (intro run_reach.step [OF reach1] run_step.case_shellDone [of _ True]) simp_all
  moreover have "concat ps2 = []" using r2(2-4) by (simp add: run_inv_def)
  moreover have "\<forall>p \<in> set ps2. p \<noteq> []" using r2(2) sess_inv_nonempty by (auto simp: run_inv_def sess_inv_def)
  ultimately have reach2: "run_reach demoEnv demoConfig r2" and "ps2 = []" by (auto simp: concat_eq_Nil_conv)
  have len: "length (s_store (r_s r2)) = 1"
    using r2(1) r(8) shellDone_store [OF r2(1)] by simp
  have "dataSent (s_store (r_s r2) ! 0) = []"
    using r2(2) \<open>ps2 = []\<close> len
    by (auto simp: run_inv_def sess_inv_def sess_base_def settled_store parts_def part_def views_def)
  with reach2 res r2 len show ?thesis by blast
qed

theorem exit_may_drop_output_witness:
  "\<exists>env cfg r. run_reach env cfg r \<and> r_result r = Some None \<and> r_out r = [98, 121, 101] \<and> r_ptyDataCh r = [[98, 121, 101]]"
  using exit_may_drop_output [of "[98, 121, 101]"] by (auto simp: ptyReadBufSize_def)

end
