(* ===== verification/Escape.thy ===== *)
theory Escape
  imports Goet_Prelude
begin

text \<open>
  The detector of the \<^verbatim>\<open>~.\<close> escape sequence, \<^verbatim>\<open>internal/client/escape.go\<close>: a state machine over the
  bytes of standard input that writes the bytes to be sent into a caller-supplied buffer. Writing
  past the end of that buffer is a panic and makes \<open>Process\<close> return \<open>None\<close>. The lemmas show how
  large the buffer has to be, when exactly the machine disconnects, what it sends otherwise, and that
  cutting the input into chunks does not matter.
\<close>

section \<open>The machine\<close>

datatype EscapeState = escNone | escAfterNewline | escAfterTilde

datatype EscapeAction = EscSend | EscDisconnect

record EscapeProcessor =
  esc_state :: EscapeState

definition NewEscapeProcessor :: EscapeProcessor where
  "NewEscapeProcessor = \<lparr>esc_state = escAfterNewline\<rparr>"

definition CR :: byte where "CR = 13"
definition LF :: byte where "LF = 10"
definition Tilde :: byte where "Tilde = 126"
definition Dot :: byte where "Dot = 46"

definition isNewline :: "byte \<Rightarrow> bool" where
  "isNewline b \<longleftrightarrow> b = CR \<or> b = LF"

text \<open>The pair of statements \<^verbatim>\<open>dst[n] = b; n++\<close>.\<close>

definition emit :: "bytes \<Rightarrow> nat \<Rightarrow> byte \<Rightarrow> (bytes \<times> nat) option" where
  "emit dst n b = map_option (\<lambda>dst'. (dst', n + 1)) (slice_set dst (int n) b)"

fun processLoop :: "EscapeState \<Rightarrow> bytes \<Rightarrow> bytes \<Rightarrow> nat \<Rightarrow> (EscapeState \<times> bytes \<times> nat \<times> EscapeAction) option" where
  "processLoop st [] dst n = Some (st, dst, n, EscSend)"
| "processLoop st (b # bs) dst n =
     (case st of
        escNone \<Rightarrow>
          do { (dst, n) \<leftarrow> emit dst n b;
               processLoop (if b = CR \<or> b = LF then escAfterNewline else escNone) bs dst n }
      | escAfterNewline \<Rightarrow>
          (if b = Tilde then processLoop escAfterTilde bs dst n
           else if b = CR \<or> b = LF then
             do { (dst, n) \<leftarrow> emit dst n b; processLoop escAfterNewline bs dst n }
           else do { (dst, n) \<leftarrow> emit dst n b; processLoop escNone bs dst n })
      | escAfterTilde \<Rightarrow>
          (if b = Dot then Some (escAfterTilde, dst, n, EscDisconnect)
           else if b = Tilde then
             do { (dst, n) \<leftarrow> emit dst n Tilde; processLoop escNone bs dst n }
           else if b = CR \<or> b = LF then
             do { (dst, n) \<leftarrow> emit dst n Tilde; (dst, n) \<leftarrow> emit dst n b;
                  processLoop escAfterNewline bs dst n }
           else
             do { (dst, n) \<leftarrow> emit dst n Tilde; (dst, n) \<leftarrow> emit dst n b;
                  processLoop escNone bs dst n }))"

definition EscapeProcessor_Process ::
    "EscapeProcessor \<Rightarrow> bytes \<Rightarrow> bytes \<Rightarrow> (EscapeProcessor \<times> bytes \<times> nat \<times> EscapeAction) option" where
  "EscapeProcessor_Process e input dst =
     do { (st, dst, n, action) \<leftarrow> processLoop (esc_state e) input dst 0;
          Some (e\<lparr>esc_state := st\<rparr>, dst, n, action) }"

definition EscapeProcessor_Reset :: "EscapeProcessor \<Rightarrow> EscapeProcessor" where
  "EscapeProcessor_Reset e = e\<lparr>esc_state := escAfterNewline\<rparr>"

section \<open>The machine without its buffer\<close>

text \<open>\<open>escStep\<close> is one transition with the bytes it emits, \<open>escRun\<close> the output of a whole input.\<close>

fun escStep :: "EscapeState \<Rightarrow> byte \<Rightarrow> (EscapeState \<times> bytes) option" where
  "escStep escNone b = Some (if isNewline b then escAfterNewline else escNone, [b])"
| "escStep escAfterNewline b =
     (if b = Tilde then Some (escAfterTilde, [])
      else Some (if isNewline b then escAfterNewline else escNone, [b]))"
| "escStep escAfterTilde b =
     (if b = Dot then None
      else if b = Tilde then Some (escNone, [Tilde])
      else Some (if isNewline b then escAfterNewline else escNone, [Tilde, b]))"

fun escRun :: "EscapeState \<Rightarrow> bytes \<Rightarrow> EscapeState \<times> bytes \<times> EscapeAction" where
  "escRun st [] = (st, [], EscSend)"
| "escRun st (b # bs) =
     (case escStep st b of
        None \<Rightarrow> (st, [], EscDisconnect)
      | Some (st', out) \<Rightarrow> (case escRun st' bs of (st'', out', a) \<Rightarrow> (st'', out @ out', a)))"

text \<open>What the machine holds back in a state.\<close>

definition held :: "EscapeState \<Rightarrow> bytes" where
  "held st = (if st = escAfterTilde then [Tilde] else [])"

lemma emit_room:
  "n < length dst \<Longrightarrow> emit dst n b = Some (dst[n := b], n + 1)"
  by (simp add: emit_def)

lemma special_bytes [simp]:
  "Tilde \<noteq> CR" "Tilde \<noteq> LF" "Tilde \<noteq> Dot" "Dot \<noteq> CR" "Dot \<noteq> LF" "Dot \<noteq> Tilde" "CR \<noteq> LF" "LF \<noteq> CR"
  "\<not> isNewline Tilde" "\<not> isNewline Dot" "isNewline CR" "isNewline LF"
  by (simp_all add: Tilde_def CR_def LF_def Dot_def isNewline_def)

lemma escRun_length: "escRun st bs = (st', out, a) \<Longrightarrow> length out \<le> length bs + length (held st)"
proof (induction st bs arbitrary: st' out a rule: escRun.induct)
  case (2 st b bs)
  then show ?case
    by (cases st) (fastforce simp: held_def split: if_splits prod.splits)+
qed simp

definition write_at :: "bytes \<Rightarrow> nat \<Rightarrow> bytes \<Rightarrow> bytes" where
  "write_at dst n out = take n dst @ out @ drop (n + length out) dst"

lemma write_at_Nil [simp]: "write_at dst n [] = dst"
  by (simp add: write_at_def)

lemma length_write_at [simp]: "n + length out \<le> length dst \<Longrightarrow> length (write_at dst n out) = length dst"
  by (simp add: write_at_def)

lemma update_write_at:
  "n + length xs < length dst \<Longrightarrow> (write_at dst n xs)[n + length xs := b] = write_at dst n (xs @ [b])"
  by (simp add: write_at_def list_update_append upd_conv_take_nth_drop min_def Cons_nth_drop_Suc [symmetric])

lemma write_at_write_at:
  "n + length xs + length ys \<le> length dst \<Longrightarrow>
     write_at (write_at dst n xs) (n + length xs) ys = write_at dst n (xs @ ys)"
proof (induction ys rule: rev_induct)
  case (snoc y ys)
  then show ?case
    using update_write_at [of "n + length xs" ys "write_at dst n xs" y, symmetric]
      update_write_at [of n "xs @ ys" dst y] by (simp add: add.assoc)
qed simp

lemma emit_write_at:
  assumes "n + length xs < length dst"
  shows "emit (write_at dst n xs) (n + length xs) b = Some (write_at dst n (xs @ [b]), n + length (xs @ [b]))"
  using assms by (simp add: emit_room update_write_at)

text \<open>One byte of \<open>processLoop\<close> is one \<open>escStep\<close>.\<close>

lemma processLoop_step:
  assumes "n + length (held st) < length dst"
  shows "processLoop st (b # bs) dst n =
    (case escStep st b of
       None \<Rightarrow> Some (st, dst, n, EscDisconnect)
     | Some (st', out) \<Rightarrow> processLoop st' bs (write_at dst n out) (n + length out))"
  using assms emit_write_at [of n "[]" dst] emit_write_at [of n "[Tilde]" dst]
  by (cases st) (auto simp: held_def isNewline_def)

lemma escStep_held:
  "escStep st b = Some (st', out) \<Longrightarrow> length out + length (held st') \<le> 1 + length (held st)"
  by (cases st) (auto simp: held_def split: if_splits)

lemma processLoop_escRun:
  "escRun st bs = (st', out, a) \<Longrightarrow> n + length bs + length (held st) \<le> length dst \<Longrightarrow>
     processLoop st bs dst n = Some (st', write_at dst n out, n + length out, a)"
proof (induction st bs arbitrary: n dst st' out a rule: escRun.induct)
  case (2 st b bs)
  show ?case
  proof (cases "escStep st b")
    case None
    with 2 show ?thesis by (simp add: processLoop_step del: processLoop.simps)
  next
    case (Some r)
    obtain st1 o1 where r: "r = (st1, o1)" by fastforce
    obtain out1 where run: "escRun st1 bs = (st', out1, a)" and out: "out = o1 @ out1"
      using "2.prems"(1) Some r by (auto split: prod.splits)
    note bound = escStep_held [of st b st1 o1] escRun_length [OF run]
    have "processLoop st1 bs (write_at dst n o1) (n + length o1) =
        Some (st', write_at (write_at dst n o1) (n + length o1) out1, n + length o1 + length out1, a)"
      using "2.IH" [OF Some r [symmetric] run] Some r bound "2.prems"(2) by simp
    then show ?thesis
      using Some r out bound "2.prems"(2)
      by (simp add: processLoop_step write_at_write_at del: processLoop.simps)
  qed
qed simp

section \<open>What the machine computes\<close>

lemma escRun_append:
  "escRun st (xs @ ys) =
     (case escRun st xs of
        (st', out, EscDisconnect) \<Rightarrow> (st', out, EscDisconnect)
      | (st', out, EscSend) \<Rightarrow> (case escRun st' ys of (st'', out', a) \<Rightarrow> (st'', out @ out', a)))"
proof (induction st xs rule: escRun.induct)
  case (2 st b bs)
  show ?case
  proof (cases "escStep st b")
    case (Some r)
    then show ?thesis using "2.IH" [OF Some, of "fst r" "snd r"]
      by (auto split: prod.splits EscapeAction.splits)
  qed simp
qed simp

text \<open>Lines start at the beginning of the input and after each carriage return or line feed.\<close>

definition line_start :: "bytes \<Rightarrow> bool" where
  "line_start pre \<longleftrightarrow> pre = [] \<or> isNewline (last pre)"

definition asks_disconnect :: "bytes \<Rightarrow> bool" where
  "asks_disconnect input \<longleftrightarrow> (\<exists>pre rest. input = pre @ [Tilde, Dot] @ rest \<and> line_start pre)"

text \<open>The input with one \<^verbatim>\<open>~\<close> of each \<^verbatim>\<open>~~\<close> at the start of a line removed.\<close>

fun unescape :: "bool \<Rightarrow> bytes \<Rightarrow> bytes" where
  "unescape at_start [] = []"
| "unescape at_start [b] = [b]"
| "unescape at_start (b # c # bs) =
     (if at_start \<and> b = Tilde \<and> c = Tilde then Tilde # unescape False bs
      else b # unescape (isNewline b) (c # bs))"

lemma escRun_state:
  "escRun st bs = (st', out, EscSend) \<Longrightarrow> bs \<noteq> [] \<Longrightarrow>
     st' = escAfterNewline \<longleftrightarrow> isNewline (last bs)"
proof (induction st bs arbitrary: st' out rule: escRun.induct)
  case (2 st b bs)
  then obtain st1 o1 where step: "escStep st b = Some (st1, o1)"
    by (auto split: option.splits prod.splits)
  show ?case
  proof (cases "bs = []")
    case True
    with 2 step show ?thesis by (cases st) (auto split: if_splits)
  next
    case False
    with 2 step show ?thesis by (auto split: prod.splits)
  qed
qed simp

lemma escRun_disconnect:
  "escRun st bs = (st', out, EscDisconnect) \<Longrightarrow>
     \<exists>pre rest. held st @ bs = pre @ [Tilde, Dot] @ rest
       \<and> (if st = escNone then pre \<noteq> [] \<and> isNewline (last pre) else line_start pre)"
proof (induction st bs arbitrary: st' out rule: escRun.induct)
  case (2 st b bs)
  show ?case
  proof (cases "escStep st b")
    case None
    then have "st = escAfterTilde" "b = Dot" by (cases st; auto split: if_splits)+
    then have "held st @ b # bs = [] @ [Tilde, Dot] @ bs" "st \<noteq> escNone" "line_start []"
      by (simp_all add: held_def line_start_def)
    then show ?thesis by metis
  next
    case (Some r)
    obtain st1 o1 where r: "r = (st1, o1)" by fastforce
    then obtain out1 where "escRun st1 bs = (st', out1, EscDisconnect)"
      using "2.prems" Some by (auto split: prod.splits)
    from "2.IH" [OF Some r [symmetric] this] obtain pre rest
      where pre: "held st1 @ bs = pre @ [Tilde, Dot] @ rest"
        "if st1 = escNone then pre \<noteq> [] \<and> isNewline (last pre) else line_start pre" by auto
    show ?thesis
    proof (cases "st1 = escAfterTilde")
      case True
      then have "st = escAfterNewline" "b = Tilde" using Some r by (cases st; auto split: if_splits)+
      with True pre show ?thesis by (intro exI [of _ pre] exI [of _ rest]) (auto simp: held_def)
    next
      case False
      then have "held st @ b # bs = (held st @ b # pre) @ [Tilde, Dot] @ rest"
        using pre by (simp add: held_def)
      moreover have "pre = [] \<Longrightarrow> isNewline b"
        using False pre Some r by (cases st) (auto split: if_splits)
      ultimately show ?thesis
        using False pre by (intro exI [of _ "held st @ b # pre"] exI [of _ rest])
          (auto simp: line_start_def split: if_splits)
    qed
  qed
qed simp

lemma escRun_disconnect_iff:
  "snd (snd (escRun escAfterNewline bs)) = EscDisconnect \<longleftrightarrow> asks_disconnect bs"
proof
  assume "snd (snd (escRun escAfterNewline bs)) = EscDisconnect"
  then obtain st' out where "escRun escAfterNewline bs = (st', out, EscDisconnect)"
    by (metis prod.collapse)
  from escRun_disconnect [OF this] show "asks_disconnect bs"
    by (auto simp: asks_disconnect_def held_def)
next
  assume "asks_disconnect bs"
  then obtain pre rest where bs: "bs = pre @ Tilde # Dot # rest" and start: "line_start pre"
    by (auto simp: asks_disconnect_def)
  obtain st out a where run: "escRun escAfterNewline pre = (st, out, a)" by (metis prod_cases3)
  show "snd (snd (escRun escAfterNewline bs)) = EscDisconnect"
  proof (cases a)
    case EscSend
    then have "st = escAfterNewline"
      using run start escRun_state [of escAfterNewline pre st out] by (cases "pre = []") (auto simp: line_start_def)
    with run EscSend show ?thesis by (simp add: bs escRun_append)
  next
    case EscDisconnect
    with run show ?thesis by (simp add: bs escRun_append)
  qed
qed

lemma unescape_not_start: "unescape False (b # bs) = b # unescape (isNewline b) bs"
  by (cases bs) simp_all

lemma unescape_not_tilde: "b \<noteq> Tilde \<Longrightarrow> unescape s (b # bs) = b # unescape (isNewline b) bs"
  by (cases bs) simp_all

lemma escRun_output:
  "escRun st bs = (st', out, EscSend) \<Longrightarrow> out @ held st' = unescape (st \<noteq> escNone) (held st @ bs)"
proof (induction st bs arbitrary: st' out rule: escRun.induct)
  case (1 st)
  then show ?case by (simp add: held_def)
next
  case (2 st b bs)
  then obtain st1 o1 out1 where step: "escStep st b = Some (st1, o1)"
      and run: "escRun st1 bs = (st', out1, EscSend)" and out: "out = o1 @ out1"
    by (auto split: option.splits prod.splits)
  have IH: "out1 @ held st' = unescape (st1 \<noteq> escNone) (held st1 @ bs)"
    using "2.IH" [OF step refl run] .
  show ?case
    using step out IH
    by (cases st)
       (auto simp: held_def unescape_not_start unescape_not_tilde split: if_splits)
qed

text \<open>\<open>Process\<close> in a buffer with one byte to spare is the buffer-free machine.\<close>

lemma Process_escRun:
  assumes "length input < length dst"
  obtains st out a dst' where "escRun (esc_state e) input = (st, out, a)"
    "EscapeProcessor_Process e input dst = Some (\<lparr>esc_state = st\<rparr>, dst', length out, a)"
    "take (length out) dst' = out" "length dst' = length dst"
proof -
  obtain st out a where run: "escRun (esc_state e) input = (st, out, a)" by (metis prod_cases3)
  have held: "length (held (esc_state e)) \<le> 1" by (simp add: held_def)
  then have "processLoop (esc_state e) input dst 0 = Some (st, write_at dst 0 out, length out, a)"
    using processLoop_escRun [OF run, of 0 dst] assms by simp
  moreover have "length out \<le> length dst"
    using escRun_length [OF run] assms held by simp
  ultimately show ?thesis
    by (intro that [OF run, of "write_at dst 0 out"])
       (simp_all add: EscapeProcessor_Process_def, simp add: write_at_def)
qed

lemma Process_Some:
  assumes "length input < length dst" and "EscapeProcessor_Process e input dst = Some (e', dst', n, a)"
  shows "escRun (esc_state e) input = (esc_state e', take n dst', a)" and "n = length (take n dst')"
  by (rule Process_escRun [OF assms(1), of e]; use assms(2) in force)+

section \<open>Properties\<close>

definition stdinBufSize :: nat where "stdinBufSize = 32 * 1024"

text \<open>The buffer the client passes is large enough. For a chunk of at most \<open>stdinBufSize\<close>
  bytes and a buffer of \<open>stdinBufSize + 2\<close> bytes, \<open>Process\<close> never writes out of range, from any
  state, and the number of bytes it reports never exceeds the buffer.\<close>

theorem Process_in_bounds:
  assumes "length input \<le> stdinBufSize" and "length dst = stdinBufSize + 2"
  shows "\<exists>e' dst' n a. EscapeProcessor_Process e input dst = Some (e', dst', n, a)
    \<and> n \<le> length input + 1 \<and> length dst' = length dst"
proof -
  have "length input < length dst" using assms by simp
  then obtain st out a dst' where *: "escRun (esc_state e) input = (st, out, a)"
    "EscapeProcessor_Process e input dst = Some (\<lparr>esc_state = st\<rparr>, dst', length out, a)"
    "length dst' = length dst" by (rule Process_escRun)
  moreover have "length (held (esc_state e)) \<le> 1" by (simp add: held_def)
  ultimately show ?thesis using escRun_length [OF *(1)] by fastforce
qed

theorem Process_in_bounds_witness:
  "\<exists>e' dst' n a. EscapeProcessor_Process \<lparr>esc_state = escAfterTilde\<rparr> [97] (replicate 32770 0) =
     Some (e', dst', n, a) \<and> n \<le> 2"
  using Process_in_bounds [of "[97]" "replicate 32770 0" "\<lparr>esc_state = escAfterTilde\<rparr>"]
  by (auto simp: stdinBufSize_def)

text \<open>C36: From a fresh processor, a chunk is answered with \<open>EscDisconnect\<close> exactly when a
  \<^verbatim>\<open>~.\<close> occurs in it at the start of a line, that is at its very beginning or right after a carriage
  return or a line feed.\<close>

theorem disconnect_iff_escape_sequence:
  assumes "length input < length dst"
  shows "(\<exists>e' dst' n. EscapeProcessor_Process NewEscapeProcessor input dst = Some (e', dst', n, EscDisconnect))
    \<longleftrightarrow> asks_disconnect input"
proof -
  obtain st out a dst' where "escRun (esc_state NewEscapeProcessor) input = (st, out, a)"
    "EscapeProcessor_Process NewEscapeProcessor input dst = Some (\<lparr>esc_state = st\<rparr>, dst', length out, a)"
    using assms by (rule Process_escRun)
  then show ?thesis using escRun_disconnect_iff [of input] by (simp add: NewEscapeProcessor_def)
qed

theorem disconnect_iff_escape_sequence_witness:
  "\<exists>e' dst' n. EscapeProcessor_Process NewEscapeProcessor [97, 10, 126, 46] (replicate 9 0) =
      Some (e', dst', n, EscDisconnect)"
proof -
  have "[97, 10, 126, 46] = [97, 10] @ [Tilde, Dot] @ []" "line_start [97, 10]"
    by (simp_all add: Tilde_def Dot_def line_start_def isNewline_def LF_def)
  then have "asks_disconnect [97, 10, 126, 46]" unfolding asks_disconnect_def by metis
  then show ?thesis
    using disconnect_iff_escape_sequence [of "[97, 10, 126, 46]" "replicate 9 0"] by simp
qed

text \<open>C37: Nothing is lost or invented. When no disconnect is asked for, what is sent, followed by
  the held-back \<^verbatim>\<open>~\<close> if there is one, is the input with one \<^verbatim>\<open>~\<close> of each line-initial \<^verbatim>\<open>~~\<close> removed;
  the held \<^verbatim>\<open>~\<close> of an earlier chunk counts as the first byte of the next.\<close>

theorem output_is_unescaped_input:
  assumes "length input < length dst" and "EscapeProcessor_Process e input dst = Some (e', dst', n, EscSend)"
  shows "take n dst' @ held (esc_state e') = unescape (esc_state e \<noteq> escNone) (held (esc_state e) @ input)"
  using escRun_output [OF Process_Some(1) [OF assms]] .

theorem output_is_unescaped_input_witness:
  "[126 :: byte, 98] @ held escNone = unescape True [126, 126, 98]"
proof -
  have "EscapeProcessor_Process \<lparr>esc_state = escAfterTilde\<rparr> [126, 98] [0, 0, 0] =
      Some (\<lparr>esc_state = escNone\<rparr>, [126, 98, 0], 2, EscSend)"
    by (simp add: EscapeProcessor_Process_def emit_def Tilde_def Dot_def CR_def LF_def slice_set_def)
  from output_is_unescaped_input [OF _ this] show ?thesis by (simp add: held_def Tilde_def)
qed

text \<open>C38: Chunking does not matter. Feeding two chunks one after the other sends the same bytes,
  ends in the same state and disconnects in the same cases as feeding their concatenation.\<close>

theorem chunking_is_invisible:
  assumes "length (xs @ ys) < length dst"
    and "EscapeProcessor_Process e xs dst = Some (e1, d1, n1, EscSend)"
    and "EscapeProcessor_Process e1 ys dst = Some (e2, d2, n2, a)"
  shows "\<exists>d n. EscapeProcessor_Process e (xs @ ys) dst = Some (e2, d, n, a)
    \<and> take n d = take n1 d1 @ take n2 d2"
proof -
  have lens: "length xs < length dst" "length ys < length dst" using assms(1) by simp_all
  note r1 = Process_Some [OF lens(1) assms(2)] and r2 = Process_Some [OF lens(2) assms(3)]
  obtain st out a' d where *: "escRun (esc_state e) (xs @ ys) = (st, out, a')"
      "EscapeProcessor_Process e (xs @ ys) dst = Some (\<lparr>esc_state = st\<rparr>, d, length out, a')"
      "take (length out) d = out"
    using assms(1) by (rule Process_escRun)
  then have "st = esc_state e2" "a' = a" "out = take n1 d1 @ take n2 d2"
    using r1(1) r2(1) by (simp_all add: escRun_append)
  with * show ?thesis by simp
qed

theorem chunking_is_invisible_witness:
  "\<exists>d n. EscapeProcessor_Process NewEscapeProcessor ([126] @ [126, 98]) [0, 0, 0, 0] =
      Some (\<lparr>esc_state = escNone\<rparr>, d, n, EscSend) \<and> take n d = [] @ [126, 98]"
proof -
  note defs = EscapeProcessor_Process_def NewEscapeProcessor_def emit_def Tilde_def Dot_def CR_def LF_def
    slice_set_def
  have p1: "EscapeProcessor_Process NewEscapeProcessor [126] [0, 0, 0, 0] =
      Some (\<lparr>esc_state = escAfterTilde\<rparr>, [0, 0, 0, 0], 0, EscSend)" by (simp add: defs)
  have p2: "EscapeProcessor_Process \<lparr>esc_state = escAfterTilde\<rparr> [126, 98] [0, 0, 0, 0] =
      Some (\<lparr>esc_state = escNone\<rparr>, [126, 98, 0, 0], 2, EscSend)" by (simp add: defs)
  show ?thesis using chunking_is_invisible [OF _ p1 p2] by simp
qed

end
