(* ===== verification/Dial.thy ===== *)
theory Dial
  imports Transport
begin

text \<open>
  The client's dialers: \<^verbatim>\<open>internal/transport/client_dialer.go\<close>, \<^verbatim>\<open>tcp_dialer.go\<close> and the dial modes of
  \<^verbatim>\<open>conn.go\<close>. Name resolution, sockets, TLS and QUIC are not under src/: what they answer is the argument
  \<open>net\<close>. What a dialer has opened and closed again is part of its result.
\<close>

section \<open>Dial modes\<close>

definition DialQUIC :: int where "DialQUIC = 0"
definition DialTCP :: int where "DialTCP = 1"

definition DialMode_String :: "int \<Rightarrow> string" where
  "DialMode_String m = (if m = DialQUIC then ''QUIC'' else if m = DialTCP then ''TCP'' else ''unknown'')"

section \<open>Dialing\<close>

text \<open>
  The answers of the network: whether the address resolves and a UDP socket can be had, whether the QUIC
  or the TCP and TLS handshake succeeds, the exported keying material, and the streams.
\<close>

record network =
  net_resolve :: bool
  net_listenUDP :: bool
  net_quic :: bool
  net_tls :: "stream option"
  net_material :: "bytes option"
  net_control :: "stream option"
  net_data :: "stream option"

datatype dial_error = ErrResolve | ErrListenUDP | ErrQUICDial | ErrTCPDial | ErrAuth auth_error
  | ErrUnknownDialMode int | DialPanic

datatype handle = Unopened | Opened | ClosedAgain

text \<open>The message reader may panic on the peer's answer; the deferred closes are not reached then.\<close>

definition authPanics :: "auth_error \<Rightarrow> bool" where
  "authPanics e \<longleftrightarrow> e = ErrReadAuthResponse PanicSliceBounds"

record dial_result =
  dr_result :: "dial_error + Conn"
  dr_transport :: handle
  dr_conn :: handle

definition dialQUIC :: "network \<Rightarrow> bytes \<Rightarrow> u64 \<Rightarrow> dial_result" where
  "dialQUIC net passkey lastReceivedSeq =
     (if \<not> net_resolve net then \<lparr>dr_result = Inl ErrResolve, dr_transport = Unopened, dr_conn = Unopened\<rparr>
      else if \<not> net_listenUDP net then \<lparr>dr_result = Inl ErrListenUDP, dr_transport = Unopened, dr_conn = Unopened\<rparr>
      else if \<not> net_quic net then \<lparr>dr_result = Inl ErrQUICDial, dr_transport = ClosedAgain, dr_conn = Unopened\<rparr>
      else case snd (performQUICAuth passkey lastReceivedSeq (net_material net) (net_control net) (net_data net)) of
        Inl e \<Rightarrow>
          (if authPanics e then \<lparr>dr_result = Inl DialPanic, dr_transport = Opened, dr_conn = Opened\<rparr>
           else \<lparr>dr_result = Inl (ErrAuth e), dr_transport = ClosedAgain, dr_conn = ClosedAgain\<rparr>)
      | Inr c \<Rightarrow> \<lparr>dr_result = Inr (QuicConn c), dr_transport = Opened, dr_conn = Opened\<rparr>)"

definition dialTCP :: "network \<Rightarrow> bytes \<Rightarrow> u64 \<Rightarrow> dial_result" where
  "dialTCP net passkey lastReceivedSeq =
     (case net_tls net of
        None \<Rightarrow> \<lparr>dr_result = Inl ErrTCPDial, dr_transport = Unopened, dr_conn = Unopened\<rparr>
      | Some st \<Rightarrow>
          (case snd (performTCPAuth passkey lastReceivedSeq (net_material net) st) of
             Inl e \<Rightarrow>
               (if authPanics e then \<lparr>dr_result = Inl DialPanic, dr_transport = Unopened, dr_conn = Opened\<rparr>
                else \<lparr>dr_result = Inl (ErrAuth e), dr_transport = Unopened, dr_conn = ClosedAgain\<rparr>)
           | Inr c \<Rightarrow> \<lparr>dr_result = Inr (TcpConn c), dr_transport = Unopened, dr_conn = Opened\<rparr>))"

definition Dial :: "int \<Rightarrow> network \<Rightarrow> bytes \<Rightarrow> u64 \<Rightarrow> dial_result" where
  "Dial mode net passkey lastReceivedSeq =
     (if mode = DialQUIC then dialQUIC net passkey lastReceivedSeq
      else if mode = DialTCP then dialTCP net passkey lastReceivedSeq
      else \<lparr>dr_result = Inl (ErrUnknownDialMode mode), dr_transport = Unopened, dr_conn = Unopened\<rparr>)"

lemmas dial_defs = Dial_def dialQUIC_def dialTCP_def DialQUIC_def DialTCP_def

lemma Dial_success:
  assumes "dr_result (Dial mode net passkey q) = Inr conn"
  shows "mode = DialQUIC \<and> (\<exists>c. conn = QuicConn c
        \<and> snd (performQUICAuth passkey q (net_material net) (net_control net) (net_data net)) = Inr c)
      \<or> mode = DialTCP \<and> (\<exists>c st. conn = TcpConn c \<and> net_tls net = Some st
        \<and> snd (performTCPAuth passkey q (net_material net) st) = Inr c)"
  using assms by (auto simp: Dial_def dialQUIC_def dialTCP_def split: if_splits option.splits sum.splits)

text \<open>A dial that fails leaves nothing open, one that succeeds leaves the connection open.\<close>

lemma Dial_handles:
  "case dr_result (Dial mode net passkey q) of
     Inr c \<Rightarrow> dr_conn (Dial mode net passkey q) = Opened
   | Inl e \<Rightarrow> e = DialPanic \<or> dr_conn (Dial mode net passkey q) \<noteq> Opened \<and> dr_transport (Dial mode net passkey q) \<noteq> Opened"
  by (auto simp: Dial_def dialQUIC_def dialTCP_def split: if_splits option.splits sum.splits)

section \<open>What has been sent on a dialed connection\<close>

text \<open>A new connection has nothing written to it yet.\<close>

definition freshNetwork :: "network \<Rightarrow> bool" where
  "freshNetwork net \<longleftrightarrow> (\<forall>st. Some st \<in> {net_tls net, net_control net, net_data net} \<longrightarrow> sent st = [])"

lemma clientAuth_sent:
  assumes "clientAuth passkey material st = (st', None)" and "wellSent (st_w st)"
  shows "\<exists>mat. material = Some mat \<and> wellSent (st_w st')
    \<and> sentMsgs (st_w st') = sentMsgs (st_w st) @ [AuthRequest (ComputeAuthToken passkey mat)]"
proof -
  obtain mat st1 where r: "material = Some mat"
      "Stream_WriteMessage st (AuthRequest (ComputeAuthToken passkey mat)) = (st1, None)"
      "Stream_ReadMessage st1 = (Inr (AuthResponse AuthOK), st')"
    using assms(1) by (auto simp: clientAuth_def split: prod.splits sum.splits message.splits option.splits if_splits)
  with Stream_WriteMessage_sent [OF r(2) assms(2)] Stream_Read_writer [OF r(3)] show ?thesis
    by (simp add: ComputeAuthToken_hmac)
qed

lemma clientSeqHeader_sent:
  assumes "clientSeqHeader q st = (st', None)" and "wellSent (st_w st)"
  shows "wellSent (st_w st') \<and> sentMsgs (st_w st') = sentMsgs (st_w st) @ [SequenceHeader q]"
  using assms Stream_WriteMessage_sent [of st "SequenceHeader q" st' None]
  by (auto simp: clientSeqHeader_def split: prod.splits option.splits)

lemma fresh_stream: "sent st = [] \<Longrightarrow> wellSent (st_w st) \<and> sentMsgs (st_w st) = []"
  using wellSent_whole [of "[]" "st_w st"] by simp

lemma Dial_sent:
  assumes "dr_result (Dial mode net passkey q) = Inr conn" and "freshNetwork net"
  shows "conn_ok conn \<and> dataSent conn = []
    \<and> (case conn of QuicConn c \<Rightarrow> True | TcpConn t \<Rightarrow> tc_dataCh t = [] \<and> tc_controlCh t = [] \<and> \<not> tc_chClosed t \<and> \<not> tc_demuxStarted t)"
  using Dial_success [OF assms(1)]
proof (elim disjE conjE exE)
  fix c st assume c: "conn = TcpConn c" "net_tls net = Some st" "snd (performTCPAuth passkey q (net_material net) st) = Inr c"
  then obtain st1 st2 where "clientAuth passkey (net_material net) st = (st1, None)" "clientSeqHeader q st1 = (st2, None)"
      "c = newTCPConn st2 0"
    by (auto simp: performTCPAuth_def split: prod.splits option.splits)
  moreover have "wellSent (st_w st) \<and> sentMsgs (st_w st) = []" using assms(2) c(2) fresh_stream by (auto simp: freshNetwork_def)
  ultimately show ?thesis
    using c(1) by (fastforce dest!: clientAuth_sent clientSeqHeader_sent simp: conn_view_defs newTCPConn_def isData_def)
next
  fix c assume c: "conn = QuicConn c"
    "snd (performQUICAuth passkey q (net_material net) (net_control net) (net_data net)) = Inr c"
  then obtain cs ds cs1 ds1 where "net_control net = Some cs" "net_data net = Some ds"
      "clientAuth passkey (net_material net) cs = (cs1, None)" "clientSeqHeader q ds = (ds1, None)"
      "qc_control c = cs1" "qc_data c = ds1"
    by (auto simp: performQUICAuth_def split: prod.splits option.splits)
  moreover from this have "wellSent (st_w cs) \<and> sentMsgs (st_w cs) = []" "wellSent (st_w ds) \<and> sentMsgs (st_w ds) = []"
    using assms(2) fresh_stream by (auto simp: freshNetwork_def)
  ultimately show ?thesis
    using c(1) by (fastforce dest!: clientAuth_sent clientSeqHeader_sent simp: conn_view_defs isData_def)
qed

end
