(* ===== verification/Client.thy ===== *)
theory Client
  imports Session_Run Escape Dial
begin

text \<open>
  The client, the terminal-facing half: \<^verbatim>\<open>internal/client/client.go\<close>. The helpers that work on a
  connection are functions; \<open>Run\<close> with \<open>ioLoop\<close>, the stdin and stream readers and the two bounded
  waits at the end of a connection is a step relation like the session's. Raw mode and the window
  size come from the terminal, which is not under src/: whether stdin is a terminal is part of the
  client, the answers of the terminal are arguments. Logging is left out; the text of the profile notices is in
  \<open>Profile\<close>.
\<close>

section \<open>State\<close>

definition client_recvTimeout :: int where "client_recvTimeout = 15 * 1000000000"

record ClientConfig =
  cc_Host :: string
  cc_Port :: int
  cc_Passkey :: bytes
  cc_Profile :: bool
  cc_DialMode :: int
  cc_ReplaySize :: int

record Client =
  c_cfg :: ClientConfig
  c_buf :: Buffer
  c_escape :: EscapeProcessor
  c_sendSeq :: u64
  c_recvSeq :: u64
  c_stdout :: wstream
  c_tty :: bool
  c_term :: string

definition Client_New :: "ClientConfig \<Rightarrow> wstream \<Rightarrow> bool \<Rightarrow> string \<Rightarrow> Client" where
  "Client_New cfg out tty envTerm =
     \<lparr>c_cfg = cfg, c_buf = Buffer_New (cc_ReplaySize cfg), c_escape = NewEscapeProcessor, c_sendSeq = 0, c_recvSeq = 0,
      c_stdout = out, c_tty = tty, c_term = envTerm\<rparr>"

datatype exitReason = exitNetwork | exitEscape | exitShutdown | exitStdinEOF | exitCancelled

datatype client_error = ErrClientContext | ErrMakeRaw | ErrClientPanic

datatype notice = ConnectFailed | HintTCP | Reconnected | ConnectionLost | ProfileTick Conn | ProfileSummary Conn

section \<open>Operations on a connection\<close>

definition Client_dial :: "Client \<Rightarrow> network \<Rightarrow> dial_result" where
  "Client_dial c net = Dial (cc_DialMode (c_cfg c)) net (cc_Passkey (c_cfg c)) (c_recvSeq c)"

datatype exchange = Exchanged | ExchangeFailed | ExchangePanicked | ExchangeBlocked

definition handleSequenceExchange :: "Client \<Rightarrow> Conn \<Rightarrow> Conn \<times> exchange" where
  "handleSequenceExchange c conn =
     (case Conn_ReadControl conn of
        None \<Rightarrow> (conn, ExchangeBlocked)
      | Some (Inl (ProtoErr PanicSliceBounds), conn1) \<Rightarrow> (conn1, ExchangePanicked)
      | Some (Inl e, conn1) \<Rightarrow> (conn1, ExchangeFailed)
      | Some (Inr (SequenceHeader q), conn1) \<Rightarrow>
          (case Buffer_ReplaySince (c_buf c) q of
             None \<Rightarrow> (conn1, ExchangePanicked)
           | Some entries \<Rightarrow>
               (case writeAll Conn_WriteData conn1 (map toData entries) of
                  (conn2, Some e) \<Rightarrow> (conn2, ExchangeFailed)
                | (conn2, None) \<Rightarrow> (conn2, Exchanged)))
      | Some (Inr m, conn1) \<Rightarrow> (conn1, ExchangeFailed))"

definition sendTerminalInfo :: "Client \<Rightarrow> Conn \<Rightarrow> Conn \<times> proto_error option" where
  "sendTerminalInfo c conn = Conn_WriteControl conn (TerminalInfo (c_term c))"

text \<open>\<open>winsize\<close> is the answer of \<^verbatim>\<open>term.GetSize\<close>: columns and rows, or an error.\<close>

definition sendResize :: "Client \<Rightarrow> (int \<times> int) option \<Rightarrow> Conn \<Rightarrow> Conn" where
  "sendResize c winsize conn =
     (if \<not> c_tty c then conn
      else case winsize of
        None \<Rightarrow> conn
      | Some (cols, rows) \<Rightarrow> fst (Conn_WriteControl conn (Resize (word_of_int rows) (word_of_int cols))))"

definition flushStdinCoalesced ::
    "Client \<Rightarrow> Coalescer \<Rightarrow> Conn \<Rightarrow> (Client \<times> Coalescer \<times> Conn \<times> proto_error option) option" where
  "flushStdinCoalesced c coal conn =
     (case Coalescer_Flush coal of
        (coal1, None) \<Rightarrow> Some (c, coal1, conn, None)
      | (coal1, Some data) \<Rightarrow>
          (let c1 = c\<lparr>c_sendSeq := c_sendSeq c + 1\<rparr> in
           case Buffer_Store (c_buf c1) (c_sendSeq c1) data of
             None \<Rightarrow> None
           | Some buf \<Rightarrow>
               (case Conn_WriteData conn (Data (c_sendSeq c1) data) of
                  (conn1, e) \<Rightarrow> Some (c1\<lparr>c_buf := buf\<rparr>, coal1, conn1, e))))"

text \<open>A data result: write it to stdout, and count it as received only if that succeeded.\<close>

definition deliver :: "Client \<Rightarrow> u64 \<Rightarrow> bytes \<Rightarrow> Client \<times> bool" where
  "deliver c q p =
     (case Stream_Write (c_stdout c) p of
        (w, Some e) \<Rightarrow> (c\<lparr>c_stdout := w\<rparr>, False)
      | (w, None) \<Rightarrow> (c\<lparr>c_stdout := w, c_recvSeq := q\<rparr>, True))"

section \<open>The running client\<close>

text \<open>
  Where \<open>Run\<close> is: between connections (dialing or sleeping before it), in the loop of a connection,
  in \<open>drainRemainingData\<close> after a Shutdown, in \<open>drainForShutdown\<close> after a data error, or returned.
  History variables: the bytes read from stdin; the connections given up so far and, for each connection, the number its
  session reported and the number of batches at that time (\<open>k_marks\<close>); per connection, the
  number sent when dialing, the data messages that arrive on it, and those delivered to stdout
  (\<open>k_epochs\<close>). \<open>k_raw\<close> says whether the terminal is in raw mode.
\<close>

datatype phase = Dialing | InLoop | Draining | AwaitShutdown | Returned "client_error option"

record client_run =
  k_c :: Client
  k_phase :: phase
  k_conn :: "Conn option"
  k_coal :: Coalescer
  k_controlCh :: "(conn_error + message) list"
  k_dataCh :: "(conn_error + message) list"
  k_readers :: "stream_name list"
  k_now :: instant
  k_lastRecv :: instant
  k_stdinCh :: "bytes list"
  k_stdinClosed :: bool
  k_ctxDone :: bool
  k_started :: bool
  k_hinted :: bool
  k_stderr :: "notice list"
  k_raw :: bool
  k_stdin :: bytes
  k_old :: "Conn list"
  k_marks :: "(u64 \<times> nat) list"
  k_epochs :: "epoch list"

definition Client_start :: "Client \<Rightarrow> instant \<Rightarrow> client_run" where
  "Client_start c now =
     \<lparr>k_c = c, k_phase = Dialing, k_conn = None, k_coal = Coalescer_New now, k_controlCh = [], k_dataCh = [],
      k_readers = [], k_now = now, k_lastRecv = now, k_stdinCh = [], k_stdinClosed = False, k_ctxDone = False,
      k_started = False, k_hinted = False, k_stderr = [], k_raw = False, k_stdin = [], k_old = [], k_marks = [], k_epochs = []\<rparr>"

definition closeAnd :: "phase \<Rightarrow> Conn \<Rightarrow> client_run \<Rightarrow> client_run" where
  "closeAnd ph conn k = k\<lparr>k_phase := ph, k_conn := None, k_old := k_old k @ [Conn_Close conn], k_readers := []\<rparr>"

text \<open>A failed dial: the hint is shown once, and only before the first connection.\<close>

definition dialFailed :: "client_run \<Rightarrow> client_run" where
  "dialFailed k =
     (if k_ctxDone k then k\<lparr>k_phase := Returned (Some ErrClientContext)\<rparr>
      else if \<not> k_started k \<and> \<not> k_hinted k
      then k\<lparr>k_hinted := True, k_stderr := k_stderr k @ [ConnectFailed] @ (if cc_DialMode (c_cfg (k_c k)) \<noteq> DialTCP then [HintTCP] else [])\<rparr>
      else k)"

text \<open>The number the session reports on a new connection.\<close>

definition headerOf :: "Conn \<Rightarrow> u64" where
  "headerOf conn = (case Conn_ReadControl conn of Some (Inr (SequenceHeader q), _) \<Rightarrow> q | _ \<Rightarrow> 0)"

text \<open>
  What \<open>Run\<close> does with a dialed connection, up to the start of \<open>ioLoop\<close>: \<open>raw\<close> says whether raw
  mode can be entered. Nothing recovers a panic here: the process ends, and its sockets are closed with it.
\<close>

definition connected :: "bool \<Rightarrow> (int \<times> int) option \<Rightarrow> client_run \<Rightarrow> Conn \<Rightarrow> client_run" where
  "connected raw winsize k conn =
     (let reconnecting = k_started k;
          k1 = k\<lparr>k_started := True,
                 k_marks := k_marks k @ [(headerOf conn, unat (c_sendSeq (k_c k)))],
                 k_epochs := k_epochs k @ [\<lparr>ep_dialSeq = c_recvSeq (k_c k), ep_arriving = dataIn conn, ep_delivered = []\<rparr>]\<rparr>
      in case handleSequenceExchange (k_c k1) conn of
           (conn1, ExchangeFailed) \<Rightarrow> closeAnd Dialing conn1 k1
         | (conn1, ExchangePanicked) \<Rightarrow> closeAnd (Returned (Some ErrClientPanic)) conn1 k1
         | (conn1, ExchangeBlocked) \<Rightarrow> k1\<lparr>k_conn := Some conn1\<rparr>
         | (conn1, Exchanged) \<Rightarrow>
             (case sendTerminalInfo (k_c k1) conn1 of
                (conn2, Some e) \<Rightarrow> closeAnd Dialing conn2 k1
              | (conn2, None) \<Rightarrow>
                  (let k2 = (if reconnecting then k1\<lparr>k_stderr := k_stderr k1 @ [Reconnected]\<rparr> else k1) in
                   if c_tty (k_c k2) \<and> \<not> raw then closeAnd (Returned (Some ErrMakeRaw)) conn2 k2
                   else k2\<lparr>k_c := (k_c k2)\<lparr>c_escape := EscapeProcessor_Reset (c_escape (k_c k2))\<rparr>,
                           k_phase := InLoop, k_raw := c_tty (k_c k2),
                           k_conn := Some (Conn_StartDemux (sendResize (k_c k2) winsize conn2)),
                           k_coal := Coalescer_New (k_now k2), k_controlCh := [], k_dataCh := [],
                           k_readers := [ControlStream, DataStream], k_lastRecv := k_now k2\<rparr>)))"

text \<open>\<open>logProfile\<close> and \<open>logProfileSummary\<close>: called when profiling is on.\<close>

definition profiled :: "notice \<Rightarrow> client_run \<Rightarrow> client_run" where
  "profiled n k = k\<lparr>k_stderr := k_stderr k @ (if cc_Profile (c_cfg (k_c k)) then [n] else [])\<rparr>"

text \<open>
  Leaving \<open>ioLoop\<close>: its deferred call writes the summary, then \<open>Run\<close> restores the terminal (which the terminal is taken to
  do) before it looks at the reason.
\<close>

definition exitLoop :: "exitReason \<Rightarrow> Conn \<Rightarrow> client_run \<Rightarrow> client_run" where
  "exitLoop reason conn k =
     (let k1 = (profiled (ProfileSummary conn) k)\<lparr>k_raw := False\<rparr> in
      case reason of
        exitNetwork \<Rightarrow> closeAnd Dialing conn (k1\<lparr>k_stderr := k_stderr k1 @ [ConnectionLost]\<rparr>)
      | exitShutdown \<Rightarrow> closeAnd (Returned None) conn k1
      | _ \<Rightarrow> closeAnd (Returned (if reason = exitCancelled then Some ErrClientContext else None))
               (fst (Conn_WriteControl conn Shutdown)) k1)"

definition stale :: "client_run \<Rightarrow> bool" where
  "stale k \<longleftrightarrow> k_now k - k_lastRecv k > client_recvTimeout"

text \<open>Flush, then go on or leave the loop; \<open>None\<close> is a panic.\<close>

definition io_flush :: "Coalescer \<Rightarrow> Conn \<Rightarrow> client_run \<Rightarrow> client_run option" where
  "io_flush coal conn k =
     (case flushStdinCoalesced (k_c k) coal conn of
        None \<Rightarrow> None
      | Some (c, coal1, conn1, e) \<Rightarrow>
          (let k1 = k\<lparr>k_c := c, k_coal := coal1, k_conn := Some conn1\<rparr> in
           Some (if e \<noteq> None then exitLoop exitNetwork conn1 k1 else k1)))"

text \<open>The select cases of \<open>ioLoop\<close> on the connection \<open>conn\<close>.\<close>

definition io_stdinEOF :: "Conn \<Rightarrow> client_run \<Rightarrow> client_run option" where
  "io_stdinEOF conn k =
     (case flushStdinCoalesced (k_c k) (k_coal k) conn of
        None \<Rightarrow> None
      | Some (c, coal, conn1, e) \<Rightarrow> Some (exitLoop exitStdinEOF conn1 (k\<lparr>k_c := c, k_coal := coal\<rparr>)))"

definition io_stdin :: "Conn \<Rightarrow> bytes \<Rightarrow> client_run \<Rightarrow> client_run option" where
  "io_stdin conn data k =
     (if stale k then Some (exitLoop exitNetwork conn k)
      else case EscapeProcessor_Process (c_escape (k_c k)) data (replicate (stdinBufSize + 2) 0) of
        None \<Rightarrow> None
      | Some (esc, buf, n, action) \<Rightarrow>
          (let k1 = k\<lparr>k_c := (k_c k)\<lparr>c_escape := esc\<rparr>\<rparr> in
           if action = EscDisconnect then Some (exitLoop exitEscape conn k1)
           else if n > 0 then
             (case Coalescer_Add (k_now k1) (k_coal k1) (take n buf) of
                (coal, full) \<Rightarrow>
                  if full then io_flush coal conn k1 else Some (k1\<lparr>k_coal := coal\<rparr>))
           else Some k1))"

definition io_timer :: "Conn \<Rightarrow> client_run \<Rightarrow> client_run option" where
  "io_timer conn k =
     (if stale k then Some (exitLoop exitNetwork conn k)
      else io_flush (Coalescer_recv (k_coal k)) conn k)"

definition io_control :: "Conn \<Rightarrow> conn_error + message \<Rightarrow> client_run \<Rightarrow> client_run" where
  "io_control conn res k =
     (case res of
        Inl e \<Rightarrow> exitLoop exitNetwork conn k
      | Inr m \<Rightarrow>
          (let k1 = k\<lparr>k_lastRecv := k_now k\<rparr> in
           if m = Shutdown then k1\<lparr>k_phase := Draining\<rparr> else k1))"

text \<open>Recording a delivery on the current connection.\<close>

definition delivered :: "message \<Rightarrow> client_run \<Rightarrow> client_run" where
  "delivered m k =
     k\<lparr>k_epochs := (case rev (k_epochs k) of
                      [] \<Rightarrow> []
                    | ep # eps \<Rightarrow> rev eps @ [ep\<lparr>ep_delivered := ep_delivered ep @ [m]\<rparr>])\<rparr>"

definition io_data :: "Conn \<Rightarrow> conn_error + message \<Rightarrow> client_run \<Rightarrow> client_run" where
  "io_data conn res k =
     (case res of
        Inl e \<Rightarrow> k\<lparr>k_phase := AwaitShutdown\<rparr>
      | Inr m \<Rightarrow>
          (let k1 = k\<lparr>k_lastRecv := k_now k\<rparr> in
           case m of
             Data q p \<Rightarrow>
               (case deliver (k_c k1) q p of
                  (c, False) \<Rightarrow> exitLoop exitStdinEOF conn (k1\<lparr>k_c := c\<rparr>)
                | (c, True) \<Rightarrow> delivered m (k1\<lparr>k_c := c\<rparr>))
           | _ \<Rightarrow> k1))"

definition io_heartbeat :: "u64 \<Rightarrow> Conn \<Rightarrow> client_run \<Rightarrow> client_run" where
  "io_heartbeat unixMilli conn k =
     (if stale k then exitLoop exitNetwork conn k
      else case Conn_WriteControl conn (Heartbeat unixMilli) of
        (conn1, Some e) \<Rightarrow> exitLoop exitNetwork conn1 k
      | (conn1, None) \<Rightarrow> profiled (ProfileTick conn1) (k\<lparr>k_conn := Some conn1\<rparr>))"

text \<open>One result in \<open>drainRemainingData\<close>, and the control result in \<open>drainForShutdown\<close>.\<close>

definition drainRemainingData :: "Conn \<Rightarrow> conn_error + message \<Rightarrow> client_run \<Rightarrow> client_run" where
  "drainRemainingData conn res k =
     (case res of
        Inl e \<Rightarrow> exitLoop exitShutdown conn k
      | Inr m \<Rightarrow>
          (case m of
             Data q p \<Rightarrow>
               (case deliver (k_c k) q p of
                  (c, False) \<Rightarrow> exitLoop exitShutdown conn (k\<lparr>k_c := c\<rparr>)
                | (c, True) \<Rightarrow> delivered m (k\<lparr>k_c := c\<rparr>))
           | _ \<Rightarrow> k))"

definition drainForShutdown :: "Conn \<Rightarrow> conn_error + message \<Rightarrow> client_run \<Rightarrow> client_run" where
  "drainForShutdown conn res k =
     exitLoop (if res = Inr Shutdown then exitShutdown else exitNetwork) conn k"

section \<open>The stream readers end\<close>

text \<open>
  \<open>readStreamLoop\<close> as a loop of its own: it reads until the first error, and everything it read, the error last, goes to
  the channel. It may in principle run forever, so the result is an option; on a stream that ends it does not.
\<close>

partial_function (option) readStreamLoop :: "('c \<Rightarrow> ('e + message) \<times> 'c) \<Rightarrow> 'c \<Rightarrow> ('e + message) list option" where
  "readStreamLoop readFn c =
     (case readFn c of
        (Inl e, c') \<Rightarrow> Some [Inl e]
      | (Inr m, c') \<Rightarrow> Option.bind (readStreamLoop readFn c') (\<lambda>rest. Some (Inr m # rest)))"

lemma readStreamLoop_ends: "\<exists>e. readStreamLoop Stream_ReadMessage st = Some (map Inr (parseAll (incoming st)) @ [Inl e])"
proof (induction "parseAll (incoming st)" arbitrary: st)
  case Nil
  obtain res st' where r: "Stream_ReadMessage st = (res, st')" by fastforce
  with Stream_Read_parseAll [OF r] Nil show ?case
    by (cases res) (simp_all add: readStreamLoop.simps [of Stream_ReadMessage st])
next
  case (Cons m ms)
  obtain res st' where r: "Stream_ReadMessage st = (res, st')" by fastforce
  with Stream_Read_parseAll [OF r] Cons.hyps(2) have m: "res = Inr m" "parseAll (incoming st') = ms" by (cases res; simp)+
  obtain e where "readStreamLoop Stream_ReadMessage st' = Some (map Inr (parseAll (incoming st')) @ [Inl e])"
    using Cons.hyps(1) [of st'] m(2) by auto
  with r m Cons.hyps(2) [symmetric] show ?case by (simp add: readStreamLoop.simps [of Stream_ReadMessage st])
qed

end
