(* ===== verification/Client_Run.thy ===== *)
theory Client_Run
  imports Client
begin

text \<open>
  The steps of a running client and what holds in all its states: which part of the typed batches
  every connection carries, and what of the session's data reaches stdout.
\<close>

section \<open>Steps\<close>

lemma Client_dial_fresh:
  assumes "dr_result (Client_dial c net) = Inr conn" and "freshNetwork net"
  shows "fresh_conn conn"
  using Dial_sent [OF assms(1) [unfolded Client_dial_def] assms(2)]
  by (cases conn) (auto simp: fresh_conn_def)

inductive client_step :: "client_run \<Rightarrow> client_run \<Rightarrow> bool" where
  tick: "k_now k \<le> t \<Longrightarrow> client_step k (k\<lparr>k_now := t\<rparr>)"
| readStdin: "\<not> k_stdinClosed k \<Longrightarrow> d \<noteq> [] \<Longrightarrow> length d \<le> stdinBufSize \<Longrightarrow> length (k_stdinCh k) < 4 \<Longrightarrow>
    client_step k (k\<lparr>k_stdinCh := k_stdinCh k @ [d], k_stdin := k_stdin k @ d\<rparr>)"
| readStdin_end: "client_step k (k\<lparr>k_stdinClosed := True\<rparr>)"
| cancel: "client_step k (k\<lparr>k_ctxDone := True\<rparr>)"
| dial_failed: "k_phase k = Dialing \<Longrightarrow> dr_result (Client_dial (k_c k) net) = Inl e \<Longrightarrow> e \<noteq> DialPanic \<Longrightarrow>
    client_step k (dialFailed k)"
| dial_cancelled: "k_phase k = Dialing \<Longrightarrow> k_ctxDone k \<Longrightarrow> client_step k (k\<lparr>k_phase := Returned (Some ErrClientContext)\<rparr>)"
| dial_ok: "k_phase k = Dialing \<Longrightarrow> freshNetwork net \<Longrightarrow> dr_result (Client_dial (k_c k) net) = Inr conn \<Longrightarrow>
    client_step k (connected raw winsize k conn)"
| read_control: "ControlStream \<in> set (k_readers k) \<Longrightarrow> k_conn k = Some conn \<Longrightarrow> length (k_controlCh k) < 4 \<Longrightarrow>
    readFrom conn ControlStream = Some (res, conn') \<Longrightarrow> res \<noteq> Inl (ProtoErr PanicSliceBounds) \<Longrightarrow>
    client_step k (k\<lparr>k_conn := Some conn', k_controlCh := k_controlCh k @ [res],
      k_readers := (if isl res then removeAll ControlStream (k_readers k) else k_readers k)\<rparr>)"
| read_data: "DataStream \<in> set (k_readers k) \<Longrightarrow> k_conn k = Some conn \<Longrightarrow> length (k_dataCh k) < 4 \<Longrightarrow>
    readFrom conn DataStream = Some (res, conn') \<Longrightarrow> res \<noteq> Inl (ProtoErr PanicSliceBounds) \<Longrightarrow>
    client_step k (k\<lparr>k_conn := Some conn', k_dataCh := k_dataCh k @ [res],
      k_readers := (if isl res then removeAll DataStream (k_readers k) else k_readers k)\<rparr>)"
| demuxLoop: "k_conn k = Some (TcpConn c) \<Longrightarrow> demux_step c c' \<Longrightarrow> client_step k (k\<lparr>k_conn := Some (TcpConn c')\<rparr>)"
| stdinEOF: "k_phase k = InLoop \<Longrightarrow> k_conn k = Some conn \<Longrightarrow> k_stdinCh k = [] \<Longrightarrow> k_stdinClosed k \<Longrightarrow>
    io_stdinEOF conn k = Some k' \<Longrightarrow> client_step k k'"
| stdin: "k_phase k = InLoop \<Longrightarrow> k_conn k = Some conn \<Longrightarrow> k_stdinCh k = d # ds \<Longrightarrow>
    io_stdin conn d (k\<lparr>k_stdinCh := ds\<rparr>) = Some k' \<Longrightarrow> client_step k k'"
| timer: "k_phase k = InLoop \<Longrightarrow> k_conn k = Some conn \<Longrightarrow> Coalescer_ready (k_coal k) (k_now k) \<Longrightarrow>
    io_timer conn k = Some k' \<Longrightarrow> client_step k k'"
| control: "k_phase k = InLoop \<Longrightarrow> k_conn k = Some conn \<Longrightarrow> k_controlCh k = res # rs \<Longrightarrow>
    client_step k (io_control conn res (k\<lparr>k_controlCh := rs\<rparr>))"
| data: "k_phase k = InLoop \<Longrightarrow> k_conn k = Some conn \<Longrightarrow> k_dataCh k = res # rs \<Longrightarrow>
    client_step k (io_data conn res (k\<lparr>k_dataCh := rs\<rparr>))"
| sigwinch: "k_phase k = InLoop \<Longrightarrow> k_conn k = Some conn \<Longrightarrow>
    client_step k (k\<lparr>k_conn := Some (sendResize (k_c k) winsize conn)\<rparr>)"
| heartbeat: "k_phase k = InLoop \<Longrightarrow> k_conn k = Some conn \<Longrightarrow> client_step k (io_heartbeat ms conn k)"
| cancelled: "k_phase k = InLoop \<Longrightarrow> k_conn k = Some conn \<Longrightarrow> k_ctxDone k \<Longrightarrow>
    client_step k (exitLoop exitCancelled conn k)"
| drain: "k_phase k = Draining \<Longrightarrow> k_conn k = Some conn \<Longrightarrow> k_dataCh k = res # rs \<Longrightarrow>
    client_step k (drainRemainingData conn res (k\<lparr>k_dataCh := rs\<rparr>))"
| drain_timeout: "k_phase k = Draining \<Longrightarrow> k_conn k = Some conn \<Longrightarrow> client_step k (exitLoop exitShutdown conn k)"
| await: "k_phase k = AwaitShutdown \<Longrightarrow> k_conn k = Some conn \<Longrightarrow> k_controlCh k = res # rs \<Longrightarrow>
    client_step k (drainForShutdown conn res (k\<lparr>k_controlCh := rs\<rparr>))"
| await_timeout: "k_phase k = AwaitShutdown \<Longrightarrow> k_conn k = Some conn \<Longrightarrow> client_step k (exitLoop exitNetwork conn k)"

inductive client_reach :: "Client \<Rightarrow> client_run \<Rightarrow> bool" for c0 where
  start: "client_reach c0 (Client_start c0 now)"
| step: "client_reach c0 k \<Longrightarrow> client_step k k' \<Longrightarrow> client_reach c0 k'"

section \<open>What the client receives\<close>

definition allDelivered :: "client_run \<Rightarrow> message list" where
  "allDelivered k = concat (map ep_delivered (k_epochs k))"

definition recv_live :: "epoch list \<Rightarrow> (conn_error + message) list \<Rightarrow> stream_name list \<Rightarrow> Conn \<Rightarrow> bool" where
  "recv_live eps ch rds conn \<longleftrightarrow> eps \<noteq> [] \<and> inbox.feed (last eps) [] ch (DataStream \<in> set rds) conn"

definition in_loop :: "phase \<Rightarrow> bool" where
  "in_loop ph \<longleftrightarrow> ph \<in> {InLoop, Draining, AwaitShutdown}"

text \<open>A partial write to stdout can only have been the last one before \<open>Run\<close> returned.\<close>

definition recv_inv :: "bytes \<Rightarrow> client_run \<Rightarrow> bool" where
  "recv_inv out0 k \<longleftrightarrow>
     (\<exists>torn. recv_core out0 torn (k_epochs k) (c_recvSeq (k_c k)) (c_stdout (k_c k))
        \<and> (torn = [] \<or> (\<exists>e. k_phase k = Returned e)))
     \<and> (\<forall>conn. k_conn k = Some conn \<longrightarrow> recv_live (k_epochs k) (k_dataCh k) (k_readers k) conn)
     \<and> (k_conn k \<noteq> None \<longleftrightarrow> in_loop (k_phase k))"

lemma recv_loopD:
  assumes "recv_inv out0 k" and "k_conn k = Some conn"
  shows "recv_core out0 [] (k_epochs k) (c_recvSeq (k_c k)) (c_stdout (k_c k))"
    and "recv_live (k_epochs k) (k_dataCh k) (k_readers k) conn" and "in_loop (k_phase k)"
  using assms by (auto simp: recv_inv_def in_loop_def)

lemma recv_loopI:
  assumes "recv_core out0 [] (k_epochs k) (c_recvSeq (k_c k)) (c_stdout (k_c k))" and "k_conn k = Some conn"
    and "recv_live (k_epochs k) (k_dataCh k) (k_readers k) conn" and "in_loop (k_phase k)"
  shows "recv_inv out0 k"
  using assms by (auto simp: recv_inv_def)

lemma recv_closeAnd:
  assumes "recv_core out0 torn (k_epochs k) (c_recvSeq (k_c k)) (c_stdout (k_c k))"
    and "ph = Dialing \<and> torn = [] \<or> ph = Returned e"
  shows "recv_inv out0 (closeAnd ph conn k)"
  using assms by (auto simp: recv_inv_def closeAnd_def in_loop_def)

lemma recv_exitLoop:
  assumes "recv_core out0 torn (k_epochs k) (c_recvSeq (k_c k)) (c_stdout (k_c k))"
    and "torn = [] \<or> reason \<noteq> exitNetwork"
  shows "recv_inv out0 (exitLoop reason conn k)"
  using assms by (cases reason) (auto simp: exitLoop_def profiled_def intro!: recv_closeAnd)

lemma inbox_sendResize: "dataIn (sendResize c sz conn) = dataIn conn" "demux_on (sendResize c sz conn) = demux_on conn"
  using inbox.write_control by (auto simp: sendResize_def split: option.splits prod.splits) (metis prod.collapse)+

text \<open>Delivering the next data message, or failing to.\<close>

lemma delivered_epochs: "k_epochs k \<noteq> [] \<Longrightarrow> k_epochs (delivered m k) = noteDelivered m (k_epochs k)"
  by (cases "k_epochs k" rule: rev_cases) (simp_all add: delivered_def noteDelivered_def)

lemma delivered_sel [simp]:
  "k_c (delivered m k) = k_c k" "k_conn (delivered m k) = k_conn k" "k_dataCh (delivered m k) = k_dataCh k"
  "k_readers (delivered m k) = k_readers k" "k_phase (delivered m k) = k_phase k"
  by (simp_all add: delivered_def)

lemma recv_delivered:
  assumes "recv_core out0 [] eps q w" and "recv_live eps (Inr (Data q' p) # rs) rds conn" and "Stream_Write w p = (w', None)"
  shows "recv_core out0 [] (noteDelivered (Data q' p) eps) q' w'" and "recv_live (noteDelivered (Data q' p) eps) rs rds conn"
proof -
  have f: "eps \<noteq> []" "inbox.feed (last eps) [] (Inr (Data q' p) # rs) (DataStream \<in> set rds) conn"
    using assms(2) by (simp_all add: recv_live_def)
  then show "recv_core out0 [] (noteDelivered (Data q' p) eps) q' w'"
    using recv_core_delivered [OF assms(1) f(1) _ assms(3)] inbox.feed_next [OF f(2)] by (auto simp: isData_def)
  show "recv_live (noteDelivered (Data q' p) eps) rs rds conn"
    using inbox.feed_take [OF f(2)] by (simp add: recv_live_def noteDelivered_def isData_def)
qed

lemma recv_live_skip: "recv_live eps (Inr m # rs) rds conn \<Longrightarrow> \<not> isData m \<Longrightarrow> recv_live eps rs rds conn"
  using inbox.feed_skip [of "last eps" "[]" "Inr m"] by (simp add: recv_live_def)

lemma recv_live_error: "recv_live eps (Inl e # rs) rds conn \<Longrightarrow> recv_live eps rs rds conn"
  using inbox.feed_skip [of "last eps" "[]" "Inl e"] by (simp add: recv_live_def)

lemma recv_live_same:
  "recv_live eps ch rds conn \<Longrightarrow> dataIn conn' = dataIn conn \<Longrightarrow> demux_on conn' = demux_on conn \<Longrightarrow> recv_live eps ch rds conn'"
  using inbox.feed_same by (auto simp: recv_live_def)

lemma io_data_recv:
  assumes "recv_inv out0 k" and "k_conn k = Some conn" and "k_dataCh k = res # rs" and "k_phase k = InLoop"
  shows "recv_inv out0 (io_data conn res (k\<lparr>k_dataCh := rs\<rparr>))"
proof -
  note core = recv_loopD(1) [OF assms(1,2)] and live = recv_loopD(2) [OF assms(1,2), unfolded assms(3)]
  show ?thesis
  proof (cases "\<exists>q p. res = Inr (Data q p)")
    case True
    then obtain q p where res: "res = Inr (Data q p)" by blast
    obtain w x where w: "Stream_Write (c_stdout (k_c k)) p = (w, x)" by fastforce
    show ?thesis
    proof (cases x)
      case None
      have "k_epochs k \<noteq> []" using live by (simp add: recv_live_def)
      then show ?thesis
        using recv_delivered [OF core live [unfolded res] w [unfolded None]] res w None assms
        by (intro recv_loopI [where conn = conn])
           (simp_all add: io_data_def deliver_def delivered_epochs in_loop_def Let_def)
    next
      case (Some e)
      then obtain torn where "recv_core out0 torn (k_epochs k) (c_recvSeq (k_c k)) w"
        using recv_core_torn [OF core] w by blast
      with res w Some show ?thesis by (simp add: io_data_def deliver_def Let_def recv_exitLoop)
    qed
  next
    case False
    then show ?thesis
      using assms core live
      by (intro recv_loopI [where conn = conn])
         (auto simp: io_data_def Let_def in_loop_def isData_def split: sum.splits message.splits
           dest: recv_live_skip recv_live_error)
  qed
qed

lemma drain_recv:
  assumes "recv_inv out0 k" and "k_conn k = Some conn" and "k_dataCh k = res # rs" and "k_phase k = Draining"
  shows "recv_inv out0 (drainRemainingData conn res (k\<lparr>k_dataCh := rs\<rparr>))"
proof -
  note core = recv_loopD(1) [OF assms(1,2)] and live = recv_loopD(2) [OF assms(1,2), unfolded assms(3)]
  show ?thesis
  proof (cases "\<exists>q p. res = Inr (Data q p)")
    case True
    then obtain q p where res: "res = Inr (Data q p)" by blast
    obtain w x where w: "Stream_Write (c_stdout (k_c k)) p = (w, x)" by fastforce
    show ?thesis
    proof (cases x)
      case None
      have "k_epochs k \<noteq> []" using live by (simp add: recv_live_def)
      then show ?thesis
        using recv_delivered [OF core live [unfolded res] w [unfolded None]] res w None assms
        by (intro recv_loopI [where conn = conn])
           (simp_all add: drainRemainingData_def deliver_def delivered_epochs in_loop_def)
    next
      case (Some e)
      then obtain torn where "recv_core out0 torn (k_epochs k) (c_recvSeq (k_c k)) w"
        using recv_core_torn [OF core] w by blast
      with res w Some show ?thesis by (simp add: drainRemainingData_def deliver_def recv_exitLoop)
    qed
  next
    case False
    show ?thesis
    proof (cases res)
      case (Inl e)
      then show ?thesis using core by (simp add: drainRemainingData_def recv_exitLoop)
    next
      case (Inr m)
      with False have "drainRemainingData conn res (k\<lparr>k_dataCh := rs\<rparr>) = k\<lparr>k_dataCh := rs\<rparr>" "\<not> isData m"
        by (auto simp: drainRemainingData_def isData_def split: message.splits)
      with Inr assms core live show ?thesis
        by (intro recv_loopI [where conn = conn]) (auto simp: in_loop_def dest: recv_live_skip)
    qed
  qed
qed

text \<open>Starting with a dialed connection.\<close>

lemma exchange_cases:
  assumes "fresh_conn conn" and "handleSequenceExchange c conn = (conn1, x)"
  shows "x \<noteq> ExchangeBlocked" and "x = Exchanged \<Longrightarrow> dataIn conn1 = dataIn conn"
proof -
  obtain r conn0 where rd: "Conn_ReadControl conn = Some (r, conn0)"
    using not_demuxed_reads [of conn] assms(1) by (auto simp: fresh_conn_def)
  show "x \<noteq> ExchangeBlocked"
    using assms(2) rd
    by (auto simp: handleSequenceExchange_def split: sum.splits conn_error.splits proto_error.splits message.splits
        option.splits prod.splits)
  assume "x = Exchanged"
  then obtain q entries where q: "r = Inr (SequenceHeader q)" "writeAll Conn_WriteData conn0 entries = (conn1, None)"
    using assms(2) rd
    by (auto simp: handleSequenceExchange_def split: sum.splits conn_error.splits proto_error.splits message.splits
        option.splits prod.splits)
  have "dataIn conn0 = dataIn conn"
    using inbox_first_read [of conn "SequenceHeader q" conn0] rd q(1) assms(1)
    by (auto simp: fresh_conn_def isData_def split: Conn.splits)
  with inbox.writeAll_keeps [OF q(2)] show "dataIn conn1 = dataIn conn" by simp
qed

lemma connected_recv:
  assumes "recv_inv out0 k" and "k_phase k = Dialing" and "fresh_conn conn"
  shows "recv_inv out0 (connected raw winsize k conn)"
proof -
  define ep where "ep = \<lparr>ep_dialSeq = c_recvSeq (k_c k), ep_arriving = dataIn conn, ep_delivered = []\<rparr>"
  have "recv_core out0 [] (k_epochs k) (c_recvSeq (k_c k)) (c_stdout (k_c k))"
    using assms(1,2) by (auto simp: recv_inv_def)
  then have core: "recv_core out0 [] (k_epochs k @ [ep]) (c_recvSeq (k_c k)) (c_stdout (k_c k))"
    by (simp add: recv_core_def dials_ok_snoc ep_def)
  obtain conn1 x where x: "handleSequenceExchange (k_c k) conn = (conn1, x)" by fastforce
  obtain conn2 e where t: "sendTerminalInfo (k_c k) conn1 = (conn2, e)" by fastforce
  note ex = exchange_cases [OF assms(3) x]
  show ?thesis
  proof (cases x)
    case Exchanged
    have d2: "dataIn conn2 = dataIn conn"
      using ex(2) [OF Exchanged] inbox.write_control t by (metis sendTerminalInfo_def)
    show ?thesis
    proof (cases "e = None \<and> (c_tty (k_c k) \<longrightarrow> raw)")
      case True
      let ?c = "Conn_StartDemux (sendResize (k_c k) winsize conn2)"
      have "recv_live (k_epochs k @ [ep]) [] [ControlStream, DataStream] ?c"
        using d2 inbox.feed_start [of ?c ep] by (simp add: recv_live_def inbox_StartDemux inbox_sendResize ep_def)
      with True x Exchanged t core show ?thesis
        by (intro recv_loopI [where conn = ?c]) (auto simp: connected_def Let_def in_loop_def ep_def [symmetric])
    next
      case False
      with x Exchanged t core show ?thesis
        by (cases e) (auto simp: connected_def Let_def ep_def [symmetric] intro!: recv_closeAnd)
    qed
  qed (use x ex core in \<open>auto simp: connected_def Let_def ep_def [symmetric] intro!: recv_closeAnd\<close>)
qed

text \<open>The remaining steps.\<close>

lemma io_flush_recv:
  assumes "recv_inv out0 k" and "k_conn k = Some conn" and "io_flush coal conn k = Some k'"
  shows "recv_inv out0 k'"
proof -
  note live = recv_loopD [OF assms(1,2)]
  obtain c coal1 conn1 e where f: "flushStdinCoalesced (k_c k) coal conn = Some (c, coal1, conn1, e)"
      "k' = (if e \<noteq> None then exitLoop exitNetwork conn1 (k\<lparr>k_c := c, k_coal := coal1, k_conn := Some conn1\<rparr>)
             else k\<lparr>k_c := c, k_coal := coal1, k_conn := Some conn1\<rparr>)"
    using assms(3) by (auto simp: io_flush_def Let_def split: option.splits)
  have c: "c_recvSeq c = c_recvSeq (k_c k)" "c_stdout c = c_stdout (k_c k)"
      "dataIn conn1 = dataIn conn" "demux_on conn1 = demux_on conn"
    using f(1) inbox.write_data
    by (auto simp: flushStdinCoalesced_def Let_def split: prod.splits option.splits)
  show ?thesis
  proof (cases e)
    case None
    with f c live show ?thesis by (intro recv_loopI [where conn = conn1]) (auto intro: recv_live_same)
  next
    case (Some x)
    with f c live show ?thesis by (simp add: recv_exitLoop)
  qed
qed

lemma recv_upd:
  assumes "recv_inv out0 k" and "k_epochs k' = k_epochs k" and "c_recvSeq (k_c k') = c_recvSeq (k_c k)"
    and "c_stdout (k_c k') = c_stdout (k_c k)" and "k_phase k' = k_phase k" and "k_conn k' = k_conn k"
    and "k_dataCh k' = k_dataCh k" and "k_readers k' = k_readers k"
  shows "recv_inv out0 k'"
  using assms by (simp add: recv_inv_def)

lemma io_stdin_recv:
  assumes "recv_inv out0 k" and "k_conn k = Some conn" and "io_stdin conn d k = Some k'"
  shows "recv_inv out0 k'"
proof -
  note live = recv_loopD [OF assms(1,2)]
  have upd: "recv_inv out0 (k\<lparr>k_c := (k_c k)\<lparr>c_escape := esc\<rparr>\<rparr>)" for esc
    using assms(1) by (rule recv_upd) simp_all
  have upd2: "recv_inv out0 (k\<lparr>k_c := (k_c k)\<lparr>c_escape := esc\<rparr>, k_coal := coal\<rparr>)" for esc coal
    using assms(1) by (rule recv_upd) simp_all
  show ?thesis
    using assms(2,3) live(1) upd2 io_flush_recv [OF upd]
    by (auto simp: io_stdin_def Let_def split: if_splits option.splits prod.splits intro: recv_exitLoop upd)
qed

lemma client_step_recv:
  assumes "client_step k k'" and "recv_inv out0 k"
  shows "recv_inv out0 k'"
  using assms(1)
proof cases
  case (dial_failed net e)
  with assms(2) show ?thesis by (auto simp: dialFailed_def recv_inv_def in_loop_def)
next
  case dial_cancelled
  with assms(2) show ?thesis by (auto simp: recv_inv_def in_loop_def)
next
  case (dial_ok net conn raw winsize)
  with connected_recv [OF assms(2)] Client_dial_fresh show ?thesis by simp
next
  case (read_control conn res conn')
  note live = recv_loopD [OF assms(2) read_control(3)]
  have "recv_live (k_epochs k) (k_dataCh k) (k_readers k) conn'"
    using live(2) inbox.feed_read_control [OF _ read_control(5)] by (auto simp: recv_live_def)
  with read_control live show ?thesis by (intro recv_loopI [where conn = conn']) (auto simp: recv_live_def)
next
  case (read_data conn res conn')
  note live = recv_loopD [OF assms(2) read_data(3)]
  have "recv_live (k_epochs k) (k_dataCh k @ [res]) (if isl res then removeAll DataStream (k_readers k) else k_readers k) conn'"
    using live(2) inbox.feed_read_data [OF _ read_data(5)] read_data(2) by (auto simp: recv_live_def)
  with read_data live show ?thesis by (intro recv_loopI [where conn = conn']) auto
next
  case (demuxLoop c c')
  note live = recv_loopD [OF assms(2) demuxLoop(2)]
  with demuxLoop inbox.feed_demux [OF _ Conn_demux.intros [OF demuxLoop(3)]] show ?thesis
    by (intro recv_loopI [where conn = "TcpConn c'"]) (auto simp: recv_live_def)
next
  case (stdinEOF conn)
  note live = recv_loopD [OF assms(2) stdinEOF(2)]
  with stdinEOF show ?thesis
    by (auto simp: io_stdinEOF_def flushStdinCoalesced_def Let_def split: option.splits prod.splits intro!: recv_exitLoop)
next
  case (stdin conn d ds)
  have "recv_inv out0 (k\<lparr>k_stdinCh := ds\<rparr>)" using assms(2) by (rule recv_upd) simp_all
  with io_stdin_recv [OF this _ stdin(4)] stdin(2) show ?thesis by simp
next
  case (timer conn)
  note live = recv_loopD [OF assms(2) timer(2)]
  with timer io_flush_recv [OF assms(2) timer(2)] show ?thesis
    by (auto simp: io_timer_def split: if_splits intro: recv_exitLoop)
next
  case (control conn res rs)
  note live = recv_loopD [OF assms(2) control(3)]
  show ?thesis
  proof (cases res)
    case (Inl e)
    with control live show ?thesis by (simp add: io_control_def recv_exitLoop)
  next
    case (Inr m)
    with control live show ?thesis
      by (intro recv_loopI [where conn = conn]) (auto simp: io_control_def Let_def in_loop_def)
  qed
next
  case (data conn res rs)
  with io_data_recv [OF assms(2)] show ?thesis by simp
next
  case (sigwinch conn winsize)
  note live = recv_loopD [OF assms(2) sigwinch(3)]
  with sigwinch show ?thesis
    by (intro recv_loopI [where conn = "sendResize (k_c k) winsize conn"]) (auto simp: inbox_sendResize intro: recv_live_same)
next
  case (heartbeat conn ms)
  note live = recv_loopD [OF assms(2) heartbeat(3)]
  obtain c e where w: "Conn_WriteControl conn (Heartbeat ms) = (c, e)" by fastforce
  have "recv_inv out0 (profiled (ProfileTick c) (k\<lparr>k_conn := Some c\<rparr>))"
    using live inbox.write_control [OF w] by (intro recv_loopI [where conn = c]) (auto simp: profiled_def intro: recv_live_same)
  with heartbeat live w show ?thesis
    by (auto simp: io_heartbeat_def split: option.splits intro: recv_exitLoop)
next
  case (drain conn res rs)
  with drain_recv [OF assms(2)] show ?thesis by simp
qed (use assms(2) recv_loopD(1) [OF assms(2)] in \<open>auto simp: drainForShutdown_def intro: recv_exitLoop recv_upd\<close>)

lemma client_reach_recv:
  assumes "client_reach c0 k" and "c_recvSeq c0 = 0"
  shows "recv_inv (ws_sent (c_stdout c0)) k"
  using assms(1)
proof induction
  case (start now)
  show ?case
    using assms(2) by (simp add: recv_inv_def Client_start_def recv_core_def dials_ok_def lastSeq_def in_loop_def)
next
  case (step k k')
  then show ?case using client_step_recv by blast
qed

end
