(* ===== verification/Client_Send.thy ===== *)
theory Client_Send
  imports Client_Run "HOL-Library.Sublist"
begin

text \<open>
  What a running client sends: which part of the typed batches every connection carries, and that the
  batches are, in order, bytes that were typed.
\<close>

section \<open>What the client sends\<close>

definition conns :: "client_run \<Rightarrow> Conn list" where
  "conns k = k_old k @ (case k_conn k of None \<Rightarrow> [] | Some c \<Rightarrow> [c])"

definition cviews :: "Conn list \<Rightarrow> (u64 \<times> nat) list \<Rightarrow> conn_view list" where
  "cviews st ms = map (\<lambda>(c, a, L). (dataSent c, a, L)) (zip st ms)"

lemma cviews_snoc [simp]: "length ms = length st \<Longrightarrow> cviews (st @ [c]) (ms @ [(a, L)]) = cviews st ms @ [(dataSent c, a, L)]"
  by (simp add: cviews_def)

definition send_core :: "int \<Rightarrow> bytes list \<Rightarrow> Client \<Rightarrow> Conn list \<Rightarrow> (u64 \<times> nat) list \<Rightarrow> bool \<Rightarrow> bool" where
  "send_core mx ps c st ms live \<longleftrightarrow> sender_inv mx ps (c_buf c) (c_sendSeq c) \<and> (\<forall>x \<in> set st. conn_ok x)
     \<and> length ms = length st \<and> parts mx ps (cviews st ms) live"

lemma send_core_split:
  assumes "send_core mx ps c (old @ [conn]) ms live"
  shows "\<exists>ms0 a L. ms = ms0 @ [(a, L)] \<and> length ms0 = length old"
  using assms by (cases ms rule: rev_cases) (auto simp: send_core_def)

lemma send_core_last:
  assumes "send_core mx ps c (old @ [conn]) ms live" and "conn_ok conn'" and "dataSent conn' = dataSent conn"
    and "live' \<longrightarrow> live"
  shows "send_core mx ps c (old @ [conn']) ms live'"
proof -
  obtain ms0 a L where "ms = ms0 @ [(a, L)]" "length ms0 = length old" using send_core_split [OF assms(1)] by blast
  with assms show ?thesis by (cases live') (auto simp: send_core_def intro: parts_not_live)
qed

lemma send_core_cong: "c_buf c' = c_buf c \<Longrightarrow> c_sendSeq c' = c_sendSeq c \<Longrightarrow> send_core mx ps c' st ms live = send_core mx ps c st ms live"
  by (simp add: send_core_def)

lemma send_flush:
  assumes "send_core mx ps c (old @ [conn]) ms True" and "coal_inv coal" and "length (co_buf coal) \<le> 2 * Threshold + 2"
  shows "\<exists>c' coal' conn' e. flushStdinCoalesced c coal conn = Some (c', coal', conn', e)
    \<and> send_core mx (flushed ps coal) c' (old @ [conn']) ms (e = None) \<and> coal_idle coal' \<and> co_buf coal' = []
    \<and> c_escape c' = c_escape c"
proof (cases "co_buf coal = []")
  case True
  then have "Coalescer_Flush coal = (coal, None)" by (simp add: Coalescer_Flush_def)
  moreover have "coal_idle coal" using assms(2) True by (auto simp: coal_inv_def coal_idle_def)
  ultimately show ?thesis using assms(1) True by (simp add: flushStdinCoalesced_def flushed_def)
next
  case False
  let ?d = "co_buf coal"
  define coal' where "coal' = fst (Coalescer_Flush coal)"
  have coal': "Coalescer_Flush coal = (coal', Some ?d)" "coal_idle coal'" "co_buf coal' = []"
    using False coal_idle_Flush [OF assms(2)] by (simp_all add: coal'_def prod_eq_iff)
  have d: "sendable ?d" using False assms(3) by (rule sendable_small)
  have snd: "sender_inv mx ps (c_buf c) (c_sendSeq c)" "conn_ok conn" using assms(1) by (simp_all add: send_core_def)
  then have q: "c_sendSeq c + 1 = of_nat (Suc (length ps))" by (simp add: sender_inv_def)
  obtain b where b: "Buffer_Store (c_buf c) (c_sendSeq c + 1) ?d = Some b" "sender_inv mx (ps @ [?d]) b (c_sendSeq c + 1)"
    using sender_store [OF snd(1) d] by blast
  obtain conn' e where w: "Conn_WriteData conn (Data (c_sendSeq c + 1) ?d) = (conn', e)" by fastforce
  have w': "conn_ok conn'" "dataSent conn' = dataSent conn @ (if e = None then [Data (c_sendSeq c + 1) ?d] else [])"
    using wire.data_step [OF snd(2) _ _ w] d by (simp_all add: sendable_def isData_def)
  obtain ms0 a L where ms: "ms = ms0 @ [(a, L)]" "length ms0 = length old" using send_core_split [OF assms(1)] by blast
  have p: "parts mx ps (cviews old ms0 @ [(dataSent conn, a, L)]) True" using assms(1) ms by (simp add: send_core_def)
  have "parts mx (ps @ [?d]) (cviews old ms0 @ [(dataSent conn', a, L)]) (e = None)"
  proof (cases e)
    case None
    with parts_grow [OF p, of ?d] w'(2) q show ?thesis by simp
  next
    case (Some x)
    with parts_extend [OF parts_not_live [OF p], of ?d] w'(2) show ?thesis by simp
  qed
  then have "send_core mx (ps @ [?d]) (c\<lparr>c_sendSeq := c_sendSeq c + 1, c_buf := b\<rparr>) (old @ [conn']) ms (e = None)"
    using assms(1) b(2) w'(1) ms by (simp add: send_core_def)
  with coal' b(1) w False show ?thesis by (simp add: flushStdinCoalesced_def flushed_def Let_def)
qed

lemma send_exchange:
  assumes "send_core mx ps c old ms False" and "fresh_conn conn" and "length ps < 2 ^ 64"
    and "handleSequenceExchange c conn = (conn1, x)"
  shows "send_core mx ps c (old @ [conn1]) (ms @ [(headerOf conn, length ps)]) (x = Exchanged)"
proof -
  have snd: "sender_inv mx ps (c_buf c) (c_sendSeq c)" "parts mx ps (cviews old ms) False" "length ms = length old"
    using assms(1) by (simp_all add: send_core_def)
  obtain r conn0 where rd: "Conn_ReadControl conn = Some (r, conn0)"
    using not_demuxed_reads [of conn] assms(2) by (auto simp: fresh_conn_def)
  have c0: "conn_ok conn0" "dataSent conn0 = []"
    using ReadControl_same [OF rd] assms(2) by (auto simp: fresh_conn_def same_view_def)
  show ?thesis
  proof (cases "\<exists>q. r = Inr (SequenceHeader q)")
    case True
    then obtain q where q: "r = Inr (SequenceHeader q)" by blast
    then have hd: "headerOf conn = q" using rd by (simp add: headerOf_def)
    obtain k where k: "Buffer_ReplaySince (c_buf c) q = Some (drop k (numbered ps))" "unat q \<le> k"
        "unat q \<le> length ps \<longrightarrow> k = unat q \<or> exceeds mx (drop (unat q) (numbered ps))"
      using sender_replay [OF snd(1) assms(3), of q] by blast
    obtain conn2 e where w: "writeAll Conn_WriteData conn0 (map toData (drop k (numbered ps))) = (conn2, e)" by fastforce
    have x: "conn1 = conn2" "x = (if e = None then Exchanged else ExchangeFailed)"
      using assms(4) rd q k(1) w by (auto simp: handleSequenceExchange_def split: option.splits)
    have "\<forall>m \<in> set (map toData (drop k (numbered ps))). encodable m \<and> isData m"
      using numbered_sendable [of ps] snd(1) by (auto simp: sender_inv_def dest: in_set_dropD)
    then obtain j where j: "j \<le> length ps - k" "e = None \<longrightarrow> j = length ps - k" "conn_ok conn2"
        "dataSent conn2 = map toData (take j (drop k (numbered ps)))"
      using wire.writeAll_log [OF c0(1) _ w] c0(2) by (auto simp: take_map)
    from parts_replayed [OF snd(2) assms(3) k(2) j(1) k(3) j(2)] j(3,4) x hd assms(1) snd(3) show ?thesis
      by (cases e) (simp_all add: send_core_def)
  next
    case False
    then have "conn1 = conn0" "x \<noteq> Exchanged"
      using assms(4) rd
      by (auto simp: handleSequenceExchange_def split: sum.splits conn_error.splits proto_error.splits message.splits)
    with c0 assms(1) parts_new_empty [OF snd(2), of "headerOf conn"] show ?thesis by (simp add: send_core_def)
  qed
qed

section \<open>Typed bytes\<close>

lemma escRun_subseq: "escRun st bs = (st', out, EscSend) \<Longrightarrow> subseq (out @ held st') (held st @ bs)"
proof (induction st bs arbitrary: st' out rule: escRun.induct)
  case (2 st b bs)
  obtain st1 o1 out1 where s: "escStep st b = Some (st1, o1)" "escRun st1 bs = (st', out1, EscSend)" "out = o1 @ out1"
    using "2.prems" by (auto split: option.splits prod.splits)
  have one: "subseq (o1 @ held st1) (held st @ [b])"
    using s(1) by (cases st) (auto simp: held_def split: if_splits)
  have rest: "subseq (out1 @ held st') (held st1 @ bs)" using "2.IH" [OF s(1) _ s(2)] by simp
  show ?case
    using list_emb_append_mono [OF subseq_order.order_refl [of o1] rest]
      list_emb_append_mono [OF one subseq_order.order_refl [of bs]] s(3)
    by (auto intro: subseq_order.order_trans)
qed simp

section \<open>The invariant of the sending side\<close>

text \<open>Typed bytes that are still on their way to a batch; without a connection only the queue counts.\<close>

definition typedAhead :: "client_run \<Rightarrow> bytes" where
  "typedAhead k = (if k_conn k = None then [] else co_buf (k_coal k) @ held (esc_state (c_escape (k_c k)))) @ concat (k_stdinCh k)"

definition send_rest :: "client_run \<Rightarrow> bool" where
  "send_rest k \<longleftrightarrow> (\<forall>d \<in> set (k_stdinCh k). length d \<le> stdinBufSize) \<and> encodable (TerminalInfo (c_term (k_c k)))"

definition send_inv :: "int \<Rightarrow> bytes list \<Rightarrow> client_run \<Rightarrow> bool" where
  "send_inv mx ps k \<longleftrightarrow> send_core mx ps (k_c k) (conns k) (k_marks k) (k_conn k \<noteq> None) \<and> send_rest k
     \<and> (k_conn k \<noteq> None \<longleftrightarrow> in_loop (k_phase k))
     \<and> (k_conn k \<noteq> None \<longrightarrow> coal_idle (k_coal k) \<and> length (co_buf (k_coal k)) < Threshold)
     \<and> subseq (concat ps @ typedAhead k) (k_stdin k)"

lemma subseq_drop_mid: "subseq (xs @ ys @ zs) ws \<Longrightarrow> subseq (xs @ zs) ws"
  by (erule subseq_order.order_trans [rotated]) (simp add: list_emb_append_mono list_emb_append2)

lemma send_loopD:
  assumes "send_inv mx ps k" and "k_conn k = Some conn"
  shows "send_core mx ps (k_c k) (k_old k @ [conn]) (k_marks k) True" and "send_rest k" and "conn_ok conn"
    and "in_loop (k_phase k)" and "coal_idle (k_coal k)" and "length (co_buf (k_coal k)) < Threshold"
    and "subseq (concat ps @ co_buf (k_coal k) @ held (esc_state (c_escape (k_c k))) @ concat (k_stdinCh k)) (k_stdin k)"
    and "subseq (concat ps @ concat (k_stdinCh k)) (k_stdin k)"
proof -
  show s: "subseq (concat ps @ co_buf (k_coal k) @ held (esc_state (c_escape (k_c k))) @ concat (k_stdinCh k)) (k_stdin k)"
    using assms by (simp add: send_inv_def typedAhead_def)
  show "subseq (concat ps @ concat (k_stdinCh k)) (k_stdin k)"
    using subseq_drop_mid [of "concat ps" "co_buf (k_coal k) @ held (esc_state (c_escape (k_c k)))"] s by simp
qed (use assms in \<open>auto simp: send_inv_def conns_def send_core_def\<close>)

lemma send_loopI:
  assumes "k_conn k = Some conn" and "send_core mx ps (k_c k) (k_old k @ [conn]) (k_marks k) True" and "send_rest k"
    and "in_loop (k_phase k)" and "coal_idle (k_coal k)" and "length (co_buf (k_coal k)) < Threshold"
    and "subseq (concat ps @ co_buf (k_coal k) @ held (esc_state (c_escape (k_c k))) @ concat (k_stdinCh k)) (k_stdin k)"
  shows "send_inv mx ps k"
  using assms by (simp add: send_inv_def conns_def typedAhead_def)

lemma send_closeAnd:
  assumes "send_core mx ps (k_c k) (k_old k @ [conn]) (k_marks k) live" and "send_rest k" and "\<not> in_loop ph"
    and "subseq (concat ps @ concat (k_stdinCh k)) (k_stdin k)"
  shows "send_inv mx ps (closeAnd ph conn k)"
proof -
  have "conn_ok conn" using assms(1) by (simp add: send_core_def)
  then have "send_core mx ps (k_c k) (k_old k @ [Conn_Close conn]) (k_marks k) False"
    using send_core_last [OF assms(1)] Conn_Close_same [of conn] by (simp add: same_view_def)
  with assms show ?thesis
    by (simp add: send_inv_def closeAnd_def conns_def typedAhead_def send_rest_def)
qed

lemma send_core_control:
  assumes "send_core mx ps c (old @ [conn]) ms live" and "Conn_WriteControl conn m = (conn', e)"
    and "encodable m" and "\<not> isData m"
  shows "send_core mx ps c (old @ [conn']) ms live"
proof -
  have "conn_ok conn" using assms(1) by (simp add: send_core_def)
  with WriteControl_same [OF assms(2) this assms(3,4)] send_core_last [OF assms(1)] show ?thesis
    by (simp add: same_view_def)
qed

lemma send_core_resize:
  assumes "send_core mx ps c (old @ [conn]) ms live"
  shows "send_core mx ps c (old @ [sendResize c' winsize conn]) ms live"
  using assms send_core_control [OF assms, of _ "fst (Conn_WriteControl conn m)" "snd (Conn_WriteControl conn m)" for m]
  by (auto simp: sendResize_def isData_def split: option.splits)

lemma send_exitLoop:
  assumes "send_core mx ps (k_c k) (k_old k @ [conn]) (k_marks k) live" and "send_rest k"
    and "subseq (concat ps @ concat (k_stdinCh k)) (k_stdin k)"
  shows "send_inv mx ps (exitLoop reason conn k)"
proof -
  obtain c e where w: "Conn_WriteControl conn Shutdown = (c, e)" by fastforce
  have "send_core mx ps (k_c k) (k_old k @ [c]) (k_marks k) live"
    using send_core_control [OF assms(1) w] by (simp add: isData_def)
  with w assms show ?thesis
    by (cases reason) (auto simp: exitLoop_def profiled_def in_loop_def send_rest_def intro!: send_closeAnd)
qed

lemma send_few:
  assumes "send_inv mx ps k" and "length (k_stdin k) < 2 ^ 64"
  shows "length ps < 2 ^ 64"
proof -
  have "\<forall>p \<in> set ps. p \<noteq> []" using assms(1) by (auto simp: send_inv_def send_core_def sender_inv_def sendable_def)
  then have "length ps \<le> length (concat ps)" by (rule length_batches)
  moreover have "length (concat ps @ typedAhead k) \<le> length (k_stdin k)"
    using assms(1) by (auto simp: send_inv_def dest: list_emb_length)
  ultimately show ?thesis using assms(2) by simp
qed

section \<open>Every step keeps it\<close>

lemma New_buf: "co_buf (Coalescer_New now) = []"
  by (simp add: coal_defs)

lemma connected_send:
  assumes "send_inv mx ps k" and "k_phase k = Dialing" and "fresh_conn conn" and "length (k_stdin k) < 2 ^ 64"
  shows "send_inv mx ps (connected raw winsize k conn)"
proof -
  have k: "send_core mx ps (k_c k) (k_old k) (k_marks k) False" "send_rest k" "k_conn k = None"
      "subseq (concat ps @ concat (k_stdinCh k)) (k_stdin k)"
    using assms(1,2) by (auto simp: send_inv_def conns_def typedAhead_def in_loop_def)
  have few: "length ps < 2 ^ 64" using send_few [OF assms(1,4)] .
  have mark: "unat (c_sendSeq (k_c k)) = length ps"
    using k(1) few by (simp add: send_core_def sender_inv_def unat_of_nat)
  obtain conn1 x where x: "handleSequenceExchange (k_c k) conn = (conn1, x)" by fastforce
  note core1 = send_exchange [OF k(1) assms(3) few x]
  obtain conn2 e where t: "sendTerminalInfo (k_c k) conn1 = (conn2, e)" by fastforce
  have core2: "send_core mx ps (k_c k) (k_old k @ [conn2]) (k_marks k @ [(headerOf conn, length ps)]) (x = Exchanged)"
    using send_core_control [OF core1, of "TerminalInfo (c_term (k_c k))"] t k(2)
    by (simp add: sendTerminalInfo_def send_rest_def isData_def)
  let ?c = "Conn_StartDemux (sendResize (k_c k) winsize conn2)"
  show ?thesis
  proof (cases "x = Exchanged \<and> e = None \<and> (c_tty (k_c k) \<longrightarrow> raw)")
    case True
    have c: "conn_ok ?c \<and> dataSent ?c = dataSent (sendResize (k_c k) winsize conn2)"
      using send_core_resize [OF core2] StartDemux_same [of "sendResize (k_c k) winsize conn2"]
      by (simp add: send_core_def same_view_def)
    let ?k = "connected raw winsize k conn"
    have sel: "k_c ?k = (k_c k)\<lparr>c_escape := EscapeProcessor_Reset (c_escape (k_c k))\<rparr>" "k_conn ?k = Some ?c"
        "k_old ?k = k_old k" "k_marks ?k = k_marks k @ [(headerOf conn, length ps)]" "k_phase ?k = InLoop"
        "k_coal ?k = Coalescer_New (k_now k)" "k_stdinCh ?k = k_stdinCh k" "k_stdin ?k = k_stdin k"
      using True x t mark by (auto simp: connected_def Let_def)
    have "send_core mx ps (k_c k) (k_old k @ [?c]) (k_marks k @ [(headerOf conn, length ps)]) True"
      using send_core_last [OF send_core_resize [OF core2], of ?c] c True by simp
    then have "send_core mx ps (k_c ?k) (k_old ?k @ [?c]) (k_marks ?k) True"
      unfolding sel by (subst send_core_cong [where c = "k_c k"]) simp_all
    with sel k show ?thesis
      by (intro send_loopI [where conn = ?c])
         (simp_all add: in_loop_def send_rest_def EscapeProcessor_Reset_def held_def Threshold_def New_buf)
  next
    case False
    with x t k mark core1 core2 exchange_cases(1) [OF assms(3) x] show ?thesis
      by (cases x; cases e)
         (auto simp: connected_def Let_def in_loop_def send_rest_def intro!: send_closeAnd)
  qed
qed

lemma io_flush_send:
  assumes "k_conn k = Some conn" and "send_core mx ps (k_c k) (k_old k @ [conn]) (k_marks k) True" and "send_rest k"
    and "in_loop (k_phase k)" and "coal_inv coal" and "length (co_buf coal) \<le> 2 * Threshold + 2"
    and "subseq (concat ps @ co_buf coal @ held (esc_state (c_escape (k_c k))) @ concat (k_stdinCh k)) (k_stdin k)"
  shows "\<exists>k'. io_flush coal conn k = Some k' \<and> send_inv mx (flushed ps coal) k'"
proof -
  obtain c coal1 conn1 e where f: "flushStdinCoalesced (k_c k) coal conn = Some (c, coal1, conn1, e)"
      "send_core mx (flushed ps coal) c (k_old k @ [conn1]) (k_marks k) (e = None)" "coal_idle coal1" "co_buf coal1 = []"
      "c_escape c = c_escape (k_c k)"
    using send_flush [OF assms(2,5,6)] by blast
  have tm: "c_term c = c_term (k_c k)"
    using f(1) by (auto simp: flushStdinCoalesced_def Let_def split: option.splits prod.splits)
  define k1 where "k1 = k\<lparr>k_c := c, k_coal := coal1, k_conn := Some conn1\<rparr>"
  have k1: "send_core mx (flushed ps coal) (k_c k1) (k_old k1 @ [conn1]) (k_marks k1) (e = None)" "send_rest k1"
      "subseq (concat (flushed ps coal) @ co_buf (k_coal k1) @ held (esc_state (c_escape (k_c k1))) @ concat (k_stdinCh k1)) (k_stdin k1)"
      "subseq (concat (flushed ps coal) @ concat (k_stdinCh k1)) (k_stdin k1)"
    using f assms(3,7) tm subseq_drop_mid [of "concat ps @ co_buf coal" "held (esc_state (c_escape (k_c k)))"]
    by (simp_all add: k1_def send_rest_def)
  have "io_flush coal conn k = Some (if e \<noteq> None then exitLoop exitNetwork conn1 k1 else k1)"
    using f(1) by (simp add: io_flush_def k1_def Let_def)
  moreover have "send_inv mx (flushed ps coal) (exitLoop exitNetwork conn1 k1)" using send_exitLoop k1 by blast
  moreover have "send_inv mx (flushed ps coal) k1" if "e = None"
    using k1 that f(3,4) assms(4) by (intro send_loopI [where conn = conn1]) (simp_all add: k1_def Threshold_def)
  ultimately show ?thesis by (cases e) auto
qed

lemma io_stdin_send:
  assumes "send_inv mx ps k" and "k_conn k = Some conn" and "k_stdinCh k = d # ds"
  shows "\<exists>k' ps'. io_stdin conn d (k\<lparr>k_stdinCh := ds\<rparr>) = Some k' \<and> send_inv mx ps' k'"
proof -
  note live = send_loopD [OF assms(1,2)]
  let ?dst = "replicate (stdinBufSize + 2) (0 :: byte)" and ?st = "esc_state (c_escape (k_c k))"
  have small: "length d < length ?dst" using live(2) assms(3) by (simp add: send_rest_def)
  obtain st out a dst' where p: "escRun ?st d = (st, out, a)" "take (length out) dst' = out"
      "EscapeProcessor_Process (c_escape (k_c k)) d ?dst = Some (\<lparr>esc_state = st\<rparr>, dst', length out, a)"
    using Process_escRun [OF small] by metis
  define k0 where "k0 = k\<lparr>k_stdinCh := ds\<rparr>"
  define k1 where "k1 = k0\<lparr>k_c := (k_c k0)\<lparr>c_escape := \<lparr>esc_state = st\<rparr>\<rparr>\<rparr>"
  have core: "send_core mx ps (k_c k1) (k_old k1 @ [conn]) (k_marks k1) True" "k_conn k1 = Some conn"
    using live(1) assms(2) by (simp_all add: k1_def k0_def send_core_def)
  have rest: "send_rest k1" "send_rest k0" using live(2) assms(3) by (simp_all add: send_rest_def k1_def k0_def)
  have drop: "subseq (concat ps @ concat ds) (k_stdin k)"
    using subseq_drop_mid [of "concat ps" d] live(8) assms(3) by simp
  have leave: "send_inv mx ps (exitLoop r conn k0)" "send_inv mx ps (exitLoop r conn k1)" for r
    using send_exitLoop [of mx ps k0 conn True r] send_exitLoop [of mx ps k1 conn True r] core live(1) rest drop
    by (simp_all add: k0_def k1_def)
  have run: "io_stdin conn d k0 = (if stale k0 then Some (exitLoop exitNetwork conn k0)
      else if a = EscDisconnect then Some (exitLoop exitEscape conn k1)
      else if out \<noteq> [] then (if snd (Coalescer_Add (k_now k1) (k_coal k1) out)
        then io_flush (fst (Coalescer_Add (k_now k1) (k_coal k1) out)) conn k1
        else Some (k1\<lparr>k_coal := fst (Coalescer_Add (k_now k1) (k_coal k1) out)\<rparr>))
      else Some k1)"
    using p by (simp add: io_stdin_def k0_def k1_def Let_def case_prod_beta del: Add_threshold)
  have sub: "subseq (concat ps @ (co_buf (k_coal k) @ out) @ held st @ concat ds) (k_stdin k)" if "a = EscSend"
  proof -
    have "subseq ((out @ held st) @ concat ds) ((held ?st @ d) @ concat ds)"
      using escRun_subseq [of ?st d st out] p(1) that by (simp only: list_emb_append_mono subseq_order.order_refl)
    from list_emb_append_mono [OF subseq_order.order_refl [of "concat ps @ co_buf (k_coal k)"] this] live(7) assms(3) show ?thesis
      by (auto intro: subseq_order.order_trans)
  qed
  define coal where "coal = fst (Coalescer_Add (k_now k1) (k_coal k1) out)"
  have c: "coal_idle coal" "co_buf coal = co_buf (k_coal k) @ out"
    using coal_idle_Add [OF live(5)] by (simp_all add: coal_def k1_def k0_def)
  have len: "length (co_buf coal) \<le> 2 * Threshold + 2"
    using live(2,6) escRun_length [OF p(1)] assms(3) c(2)
    by (auto simp: send_rest_def stdinBufSize_def Threshold_def held_def split: if_splits)
  have flush: "\<exists>k'. io_flush coal conn k1 = Some k' \<and> send_inv mx (flushed ps coal) k'" if "a = EscSend"
    using core rest(1) live(4) c len sub [OF that]
    by (intro io_flush_send) (simp_all add: k1_def k0_def coal_idle_inv)
  have stay: "send_inv mx ps (k1\<lparr>k_coal := coal\<rparr>)" if "a = EscSend" "length (co_buf coal) < Threshold"
    using core rest(1) live(4) c that sub
    by (intro send_loopI [where conn = conn]) (simp_all add: k1_def k0_def send_rest_def)
  have same: "send_inv mx ps k1" if "a = EscSend" "out = []"
    using core rest(1) live(4,5,6) that sub
    by (intro send_loopI [where conn = conn]) (simp_all add: k1_def k0_def)
  have full: "snd (Coalescer_Add (k_now k1) (k_coal k1) out) \<longleftrightarrow> out \<noteq> [] \<and> Threshold \<le> length (co_buf coal)"
    using c(2) by (simp add: k1_def k0_def)
  show ?thesis
    unfolding k0_def [symmetric] run coal_def [symmetric] full
    using leave flush stay same by (cases a) (auto simp: not_le)
qed

lemma io_eof_send:
  assumes "send_inv mx ps k" and "k_conn k = Some conn"
  shows "\<exists>k' ps'. io_stdinEOF conn k = Some k' \<and> send_inv mx ps' k'"
proof -
  note live = send_loopD [OF assms]
  obtain c coal1 conn1 e where f: "flushStdinCoalesced (k_c k) (k_coal k) conn = Some (c, coal1, conn1, e)"
      "send_core mx (flushed ps (k_coal k)) c (k_old k @ [conn1]) (k_marks k) (e = None)"
    using send_flush [OF live(1) coal_idle_inv [OF live(5)]] live(6) by force
  have "c_term c = c_term (k_c k)"
    using f(1) by (auto simp: flushStdinCoalesced_def Let_def split: option.splits prod.splits)
  then have "send_rest (k\<lparr>k_c := c, k_coal := coal1\<rparr>)" using live(2) by (simp add: send_rest_def)
  moreover have "subseq (concat (flushed ps (k_coal k)) @ concat (k_stdinCh k)) (k_stdin k)"
    using live(7) subseq_drop_mid [of "concat ps @ co_buf (k_coal k)" "held (esc_state (c_escape (k_c k)))"] by simp
  ultimately have "send_inv mx (flushed ps (k_coal k)) (exitLoop exitStdinEOF conn1 (k\<lparr>k_c := c, k_coal := coal1\<rparr>))"
    using f(2) by (intro send_exitLoop) simp_all
  with f(1) show ?thesis by (auto simp: io_stdinEOF_def)
qed

lemma io_timer_send:
  assumes "send_inv mx ps k" and "k_conn k = Some conn"
  shows "\<exists>k' ps'. io_timer conn k = Some k' \<and> send_inv mx ps' k'"
proof -
  note live = send_loopD [OF assms]
  have "\<exists>k'. io_flush (Coalescer_recv (k_coal k)) conn k = Some k' \<and> send_inv mx (flushed ps (Coalescer_recv (k_coal k))) k'"
    using live assms(2) by (intro io_flush_send) (simp_all add: coal_inv_recv coal_idle_inv)
  with send_exitLoop [OF live(1,2,8)] show ?thesis by (auto simp: io_timer_def)
qed

text \<open>A step that only touches the connection the way its views allow, or only the receiving side.\<close>

lemma send_upd:
  assumes "send_inv mx ps k" and "k_conn k = Some conn" and "k_conn k' = Some conn'"
    and "conn_ok conn'" and "dataSent conn' = dataSent conn" and "in_loop (k_phase k')"
    and "c_buf (k_c k') = c_buf (k_c k)" "c_sendSeq (k_c k') = c_sendSeq (k_c k)" "c_escape (k_c k') = c_escape (k_c k)"
    and "c_term (k_c k') = c_term (k_c k)" "k_old k' = k_old k" "k_marks k' = k_marks k" "k_coal k' = k_coal k"
    and "k_stdinCh k' = k_stdinCh k" "k_stdin k' = k_stdin k"
  shows "send_inv mx ps k'"
proof -
  note live = send_loopD [OF assms(1,2)]
  have "send_core mx ps (k_c k) (k_old k @ [conn']) (k_marks k) True" using send_core_last [OF live(1) assms(4,5)] by simp
  then have "send_core mx ps (k_c k') (k_old k' @ [conn']) (k_marks k') True" using assms by (simp add: send_core_def)
  with live assms show ?thesis by (intro send_loopI [where conn = conn']) (simp_all add: send_rest_def)
qed

lemma deliver_sel:
  assumes "deliver c q p = (c', b)"
  shows "c_buf c' = c_buf c" "c_sendSeq c' = c_sendSeq c" "c_escape c' = c_escape c" "c_term c' = c_term c"
  using assms by (auto simp: deliver_def split: prod.splits option.splits)

lemma send_leave:
  assumes "send_inv mx ps k" and "k_conn k = Some conn"
    and "c_buf (k_c k') = c_buf (k_c k)" "c_sendSeq (k_c k') = c_sendSeq (k_c k)" "c_term (k_c k') = c_term (k_c k)"
    and "k_old k' = k_old k" "k_marks k' = k_marks k" "k_stdinCh k' = k_stdinCh k" "k_stdin k' = k_stdin k"
  shows "send_inv mx ps (exitLoop reason conn k')"
proof -
  note live = send_loopD [OF assms(1,2)]
  have "send_core mx ps (k_c k') (k_old k' @ [conn]) (k_marks k') True" using live(1) assms by (simp add: send_core_def)
  with live assms show ?thesis by (intro send_exitLoop) (simp_all add: send_rest_def)
qed

lemma io_data_send:
  assumes "send_inv mx ps k" and "k_conn k = Some conn" and "k_phase k = InLoop"
  shows "send_inv mx ps (io_data conn res (k\<lparr>k_dataCh := rs\<rparr>))"
proof (cases "\<exists>q p. res = Inr (Data q p)")
  case True
  then obtain q p c b where d: "res = Inr (Data q p)" "deliver (k_c k) q p = (c, b)" by fastforce
  show ?thesis
    using d assms send_upd [OF assms(1,2), where conn' = conn] send_loopD(3) [OF assms(1,2)] send_leave [OF assms(1,2)]
      deliver_sel [OF d(2)]
    by (cases b) (simp_all add: io_data_def Let_def in_loop_def delivered_def)
next
  case False
  then have "io_data conn res (k\<lparr>k_dataCh := rs\<rparr>) \<in>
      {k\<lparr>k_dataCh := rs, k_phase := AwaitShutdown\<rparr>, k\<lparr>k_dataCh := rs, k_lastRecv := k_now k\<rparr>}"
    by (auto simp: io_data_def Let_def split: sum.splits message.splits)
  with assms send_upd [OF assms(1,2), where conn' = conn] send_loopD(3) [OF assms(1,2)] show ?thesis by (auto simp: in_loop_def)
qed

lemma drain_send:
  assumes "send_inv mx ps k" and "k_conn k = Some conn" and "k_phase k = Draining"
  shows "send_inv mx ps (drainRemainingData conn res (k\<lparr>k_dataCh := rs\<rparr>))"
proof (cases "\<exists>q p. res = Inr (Data q p)")
  case True
  then obtain q p c b where d: "res = Inr (Data q p)" "deliver (k_c k) q p = (c, b)" by fastforce
  show ?thesis
    using d assms send_upd [OF assms(1,2), where conn' = conn] send_loopD(3) [OF assms(1,2)] send_leave [OF assms(1,2)]
      deliver_sel [OF d(2)]
    by (cases b) (simp_all add: drainRemainingData_def in_loop_def delivered_def)
next
  case False
  then have "drainRemainingData conn res (k\<lparr>k_dataCh := rs\<rparr>) \<in>
      {exitLoop exitShutdown conn (k\<lparr>k_dataCh := rs\<rparr>), k\<lparr>k_dataCh := rs\<rparr>}"
    by (auto simp: drainRemainingData_def split: sum.splits message.splits)
  with assms send_upd [OF assms(1,2), where conn' = conn] send_loopD(3) [OF assms(1,2)]
    send_leave [OF assms(1,2), of "k\<lparr>k_dataCh := rs\<rparr>"] show ?thesis by (auto simp: in_loop_def)
qed

lemma send_same:
  assumes "send_inv mx ps k" and "k_c k' = k_c k" "k_old k' = k_old k" "k_conn k' = k_conn k" "k_marks k' = k_marks k"
    and "k_phase k' = k_phase k" "k_coal k' = k_coal k" "k_stdinCh k' = k_stdinCh k" "k_stdin k' = k_stdin k"
  shows "send_inv mx ps k'"
  using assms(1) unfolding send_inv_def conns_def send_rest_def typedAhead_def assms(2-9) .

lemma client_step_send:
  assumes "client_step k k'" and "send_inv mx ps k" and "length (k_stdin k') < 2 ^ 64"
  shows "\<exists>ps'. send_inv mx ps' k'"
  using assms(1)
proof cases
  case (readStdin d)
  have "subseq ((concat ps @ typedAhead k) @ d) (k_stdin k @ d)"
    using assms(2) by (intro list_emb_append_mono) (simp_all add: send_inv_def)
  with readStdin assms(2) show ?thesis
    by (intro exI [of _ ps], cases "k_conn k") (simp_all add: send_inv_def conns_def send_rest_def typedAhead_def)
next
  case (dial_failed net e)
  with assms(2) show ?thesis
    by (intro exI [of _ ps]) (auto simp: dialFailed_def send_inv_def conns_def send_rest_def typedAhead_def in_loop_def)
next
  case dial_cancelled
  with assms(2) show ?thesis
    by (intro exI [of _ ps]) (auto simp: send_inv_def conns_def send_rest_def typedAhead_def in_loop_def)
next
  case (dial_ok net conn raw winsize)
  have "k_stdin (connected raw winsize k conn) = k_stdin k"
    by (simp add: connected_def Let_def closeAnd_def split: prod.splits exchange.splits option.splits)
  with connected_send [OF assms(2) _ Client_dial_fresh [OF dial_ok(4,3)]] dial_ok assms(3) show ?thesis by auto
next
  case (read_control conn res conn')
  note same = readFrom_same [OF read_control(5) send_loopD(3) [OF assms(2) read_control(3)]]
  have "send_inv mx ps k'"
    using send_loopD(4) [OF assms(2) read_control(3)] same read_control
    by (intro send_upd [OF assms(2) read_control(3), of _ conn']) (simp_all add: same_view_def)
  then show ?thesis ..
next
  case (read_data conn res conn')
  note same = readFrom_same [OF read_data(5) send_loopD(3) [OF assms(2) read_data(3)]]
  have "send_inv mx ps k'"
    using send_loopD(4) [OF assms(2) read_data(3)] same read_data
    by (intro send_upd [OF assms(2) read_data(3), of _ conn']) (simp_all add: same_view_def)
  then show ?thesis ..
next
  case (demuxLoop c c')
  note same = demux_same [OF demuxLoop(3) send_loopD(3) [OF assms(2) demuxLoop(2)]]
  have "send_inv mx ps k'"
    using send_loopD(4) [OF assms(2) demuxLoop(2)] same demuxLoop
    by (intro send_upd [OF assms(2) demuxLoop(2), of _ "TcpConn c'"]) (simp_all add: same_view_def)
  then show ?thesis ..
next
  case (stdinEOF conn)
  with io_eof_send [OF assms(2)] show ?thesis by fastforce
next
  case (stdin conn d ds)
  with io_stdin_send [OF assms(2) stdin(2,3)] show ?thesis by auto
next
  case (timer conn)
  with io_timer_send [OF assms(2)] show ?thesis by fastforce
next
  case (control conn res rs)
  note keep = send_upd [OF assms(2) control(3), where conn' = conn] send_loopD(3) [OF assms(2) control(3)]
  have "send_inv mx ps k'"
    using control keep send_leave [OF assms(2) control(3)]
    by (cases res) (simp_all add: io_control_def Let_def in_loop_def)
  then show ?thesis ..
next
  case (data conn res rs)
  with io_data_send [OF assms(2)] show ?thesis by blast
next
  case (sigwinch conn winsize)
  note live = send_loopD [OF assms(2) sigwinch(3)]
  have "send_inv mx ps k'"
    using send_core_resize [OF live(1)] live(2-7) sigwinch
    by (intro send_loopI [where conn = "sendResize (k_c k) winsize conn"]) (simp_all add: send_rest_def)
  then show ?thesis ..
next
  case (heartbeat conn ms)
  note live = send_loopD [OF assms(2) heartbeat(3)]
  obtain c e where w: "Conn_WriteControl conn (Heartbeat ms) = (c, e)" by fastforce
  have core: "send_core mx ps (k_c k) (k_old k @ [c]) (k_marks k) True"
    using send_core_control [OF live(1) w] by (simp add: isData_def)
  have "send_inv mx ps (profiled (ProfileTick c) (k\<lparr>k_conn := Some c\<rparr>))"
    using core live(2-7) by (intro send_loopI [where conn = c]) (simp_all add: send_rest_def profiled_def)
  with heartbeat w send_exitLoop [OF live(1,2,8)] send_exitLoop [OF core live(2,8)] show ?thesis
    by (auto simp: io_heartbeat_def split: option.splits)
next
  case (drain conn res rs)
  with drain_send [OF assms(2)] show ?thesis by blast
next
  case (tick t)
  with send_same [OF assms(2), of k'] show ?thesis by auto
next
  case readStdin_end
  with send_same [OF assms(2), of k'] show ?thesis by auto
next
  case cancel
  with send_same [OF assms(2), of k'] show ?thesis by auto
next
  case (await conn res rs)
  have "send_inv mx ps (exitLoop r conn (k\<lparr>k_controlCh := rs\<rparr>))" for r
    by (intro send_leave [OF assms(2) await(3)]) simp_all
  with await show ?thesis by (auto simp: drainForShutdown_def)
next
  case (cancelled conn)
  with send_leave [OF assms(2)] show ?thesis by blast
next
  case (drain_timeout conn)
  with send_leave [OF assms(2)] show ?thesis by blast
next
  case (await_timeout conn)
  with send_leave [OF assms(2)] show ?thesis by blast
qed

lemma exitLoop_stdin [simp]: "k_stdin (exitLoop r c k) = k_stdin k"
  by (cases r) (simp_all add: exitLoop_def profiled_def closeAnd_def Let_def)

lemma client_step_stdin: "client_step k k' \<Longrightarrow> \<exists>x. k_stdin k' = k_stdin k @ x"
proof (induction rule: client_step.induct)
  case (dial_ok k net conn raw winsize)
  have "k_stdin (connected raw winsize k conn) = k_stdin k"
    by (simp add: connected_def Let_def closeAnd_def split: prod.splits exchange.splits option.splits)
  then show ?case by simp
next
  case (stdin k conn d ds k')
  then have "k_stdin k' = k_stdin k"
    by (auto simp: io_stdin_def io_flush_def Let_def split: if_splits option.splits prod.splits)
  then show ?case by simp
next
  case (timer k conn k')
  then have "k_stdin k' = k_stdin k"
    by (auto simp: io_timer_def io_flush_def Let_def split: if_splits option.splits prod.splits)
  then show ?case by simp
next
  case (data k conn res rs)
  have "k_stdin (io_data conn res (k\<lparr>k_dataCh := rs\<rparr>)) = k_stdin k"
    by (simp add: io_data_def Let_def delivered_def split: sum.splits message.splits prod.splits bool.splits)
  then show ?case by simp
next
  case (drain k conn res rs)
  have "k_stdin (drainRemainingData conn res (k\<lparr>k_dataCh := rs\<rparr>)) = k_stdin k"
    by (simp add: drainRemainingData_def delivered_def split: sum.splits message.splits prod.splits bool.splits)
  then show ?case by simp
next
  case (heartbeat k conn ms)
  have "k_stdin (io_heartbeat ms conn k) = k_stdin k" by (simp add: io_heartbeat_def profiled_def split: prod.splits option.splits)
  then show ?case by simp
qed (auto simp: dialFailed_def io_stdinEOF_def io_control_def drainForShutdown_def Let_def split: option.splits sum.splits)

lemma client_reach_send:
  assumes "client_reach (Client_New cfg out tty tm) k" and "length tm \<le> 65533" and "length (k_stdin k) < 2 ^ 64"
  shows "\<exists>ps. send_inv (cc_ReplaySize cfg) ps k"
  using assms(1,3)
proof induction
  case (start now)
  have "send_inv (cc_ReplaySize cfg) [] (Client_start (Client_New cfg out tty tm) now)"
    using assms(2) by (simp add: send_inv_def Client_start_def Client_New_def conns_def send_core_def send_rest_def
        in_loop_def typedAhead_def cviews_def)
  then show ?case ..
next
  case (step k k')
  obtain x where "k_stdin k' = k_stdin k @ x" using client_step_stdin [OF step.hyps(2)] by blast
  with step.prems have "length (k_stdin k) < 2 ^ 64" by simp
  with step client_step_send show ?case by blast
qed

section \<open>Catching up\<close>

definition queuedData :: "client_run \<Rightarrow> quicConn \<Rightarrow> message list" where
  "queuedData k q = filter isData (received (k_dataCh k)) @ dataIn (QuicConn q)"

text \<open>A client that can read and write: in its loop, no read error so far, stdout not broken.\<close>

definition listening :: "client_run \<Rightarrow> quicConn \<Rightarrow> bool" where
  "listening k q \<longleftrightarrow> k_phase k = InLoop \<and> k_conn k = Some (QuicConn q) \<and> DataStream \<in> set (k_readers k)
     \<and> (\<forall>r \<in> set (k_dataCh k). \<not> isl r) \<and> ws_room (c_stdout (k_c k)) = None"

text \<open>What a connection was dialed with and what arrives on it.\<close>

definition arrivals :: "client_run \<Rightarrow> (u64 \<times> message list) list" where
  "arrivals k = map (\<lambda>ep. (ep_dialSeq ep, ep_arriving ep)) (k_epochs k)"

lemma arrivals_delivered [simp]: "arrivals (delivered m k) = arrivals k"
  by (cases "k_epochs k" rule: rev_cases) (simp_all add: arrivals_def delivered_def)

lemma take_data:
  assumes "listening k q" and "k_dataCh k = Inr m # rs"
  shows "\<exists>k'. client_step k k' \<and> listening k' q \<and> k_dataCh k' = rs \<and> arrivals k' = arrivals k
    \<and> ws_sent (c_stdout (k_c k')) = ws_sent (c_stdout (k_c k)) @ (if isData m then Payload m else [])"
proof -
  let ?k' = "io_data (QuicConn q) (Inr m) (k\<lparr>k_dataCh := rs\<rparr>)"
  have "client_step k ?k'" using assms by (intro client_step.data) (auto simp: listening_def)
  moreover have "arrivals ?k' = arrivals k"
    by (cases m) (auto simp: io_data_def Let_def deliver_def exitLoop_def profiled_def closeAnd_def arrivals_def [of k] split: prod.splits option.splits,
        auto simp: arrivals_def)
  moreover have "listening ?k' q \<and> k_dataCh ?k' = rs
      \<and> ws_sent (c_stdout (k_c ?k')) = ws_sent (c_stdout (k_c k)) @ (if isData m then Payload m else [])"
    using assms by (cases m) (auto simp: listening_def io_data_def Let_def deliver_def Stream_Write_def delivered_def isData_def)
  ultimately show ?thesis by blast
qed

lemma read_next:
  assumes "listening k q" and "k_dataCh k = []" and "parseAll (incoming (qc_data q)) = m # ms"
  shows "\<exists>q'. listening (k\<lparr>k_conn := Some (QuicConn q'), k_dataCh := [Inr m]\<rparr>) q'
    \<and> client_step k (k\<lparr>k_conn := Some (QuicConn q'), k_dataCh := [Inr m]\<rparr>) \<and> parseAll (incoming (qc_data q')) = ms"
proof -
  obtain res st where st: "Stream_ReadMessage (qc_data q) = (res, st)" by fastforce
  with Stream_Read_parseAll [OF st] assms(3) have res: "res = Inr m" "parseAll (incoming st) = ms" by (cases res; simp)+
  let ?q = "q\<lparr>qc_data := st\<rparr>"
  have "readFrom (QuicConn q) DataStream = Some (Inr m, QuicConn ?q)"
    using st res by (simp add: readFrom_def quicConn_ReadData_def)
  then have "client_step k (k\<lparr>k_conn := Some (QuicConn ?q), k_dataCh := k_dataCh k @ [Inr m],
      k_readers := (if isl (Inr m :: conn_error + message) then removeAll DataStream (k_readers k) else k_readers k)\<rparr>)"
    using assms(1,2) by (intro client_step.read_data) (auto simp: listening_def)
  with res(2) assms(1,2) show ?thesis by (intro exI [of _ ?q]) (simp add: listening_def)
qed

lemma catch_up:
  "listening k q \<Longrightarrow> ms = received (k_dataCh k) @ parseAll (incoming (qc_data q)) \<Longrightarrow>
     \<exists>k' q'. client_step\<^sup>*\<^sup>* k k' \<and> listening k' q' \<and> queuedData k' q' = [] \<and> arrivals k' = arrivals k
       \<and> ws_sent (c_stdout (k_c k')) = ws_sent (c_stdout (k_c k)) @ concat (map Payload (filter isData ms))"
proof (induction ms arbitrary: k q)
  case Nil
  then show ?case by (intro exI [of _ k] exI [of _ q]) (simp add: queuedData_def)
next
  case (Cons m ms)
  obtain k1 q1 rs where k1: "client_step\<^sup>*\<^sup>* k k1" "listening k1 q1" "k_dataCh k1 = Inr m # rs" "k_c k1 = k_c k" "arrivals k1 = arrivals k"
      "ms = received rs @ parseAll (incoming (qc_data q1))"
  proof (cases "k_dataCh k")
    case Nil
    with Cons.prems obtain q' where "listening (k\<lparr>k_conn := Some (QuicConn q'), k_dataCh := [Inr m]\<rparr>) q'"
        "client_step k (k\<lparr>k_conn := Some (QuicConn q'), k_dataCh := [Inr m]\<rparr>)" "parseAll (incoming (qc_data q')) = ms"
      using read_next [of k q m ms] by auto
    then show ?thesis by (intro that [of "k\<lparr>k_conn := Some (QuicConn q'), k_dataCh := [Inr m]\<rparr>" q' "[]"]) (auto simp: arrivals_def)
  next
    case (Cons r rs)
    with Cons.prems have "r = Inr m" by (cases r) (auto simp: listening_def)
    with Cons Cons.prems show ?thesis by (intro that [of k q rs]) auto
  qed
  obtain k2 where k2: "client_step k1 k2" "listening k2 q1" "k_dataCh k2 = rs" "arrivals k2 = arrivals k"
      "ws_sent (c_stdout (k_c k2)) = ws_sent (c_stdout (k_c k)) @ (if isData m then Payload m else [])"
    using take_data [OF k1(2,3)] k1(4,5) by auto
  from Cons.IH [OF k2(2)] k1(6) k2(3,4) obtain k3 q3 where "client_step\<^sup>*\<^sup>* k2 k3" "listening k3 q3" "queuedData k3 q3 = []" "arrivals k3 = arrivals k"
      "ws_sent (c_stdout (k_c k3)) = ws_sent (c_stdout (k_c k2)) @ concat (map Payload (filter isData ms))"
    by auto
  moreover have "client_step\<^sup>*\<^sup>* k k2" using k1(1) k2(1) by (rule rtranclp.rtrancl_into_rtrancl)
  ultimately show ?case using k2(5) by (intro exI [of _ k3] exI [of _ q3]) (auto intro: rtranclp_trans)
qed

lemma client_reach_steps: "client_reach c0 k \<Longrightarrow> client_step\<^sup>*\<^sup>* k k' \<Longrightarrow> client_reach c0 k'"
  by (rotate_tac 1) (induction rule: rtranclp_induct; blast intro: client_reach.step)

section \<open>A sample connection\<close>

definition demoTerminal :: "bool \<Rightarrow> Client" where
  "demoTerminal tty = Client_New \<lparr>cc_Host = ''host'', cc_Port = 4242, cc_Passkey = [1], cc_Profile = False, cc_DialMode = DialQUIC,
     cc_ReplaySize = 0\<rparr> \<lparr>ws_sent = [], ws_room = None\<rparr> tty ''vt100''"

definition demoClient :: Client where
  "demoClient = demoTerminal False"

definition demoNet :: "u64 \<Rightarrow> message list \<Rightarrow> network" where
  "demoNet q ms = \<lparr>net_resolve = True, net_listenUDP = True, net_quic = True, net_tls = None, net_material = Some [2],
     net_control = Some (healthyStream (frame (AuthResponse AuthOK) @ frame (SequenceHeader q))),
     net_data = Some (healthyStream (concat (map frame ms)))\<rparr>"

lemma demo_dial:
  "\<exists>cs ds. dr_result (Client_dial (demoTerminal tty) (demoNet q ms)) = Inr (QuicConn \<lparr>qc_control = cs, qc_data = ds, qc_lastClientSeq = 0\<rparr>)
     \<and> healthy cs \<and> incoming cs = frame (SequenceHeader q) \<and> healthy ds \<and> incoming ds = concat (map frame ms)"
proof -
  let ?cs = "healthyStream (frame (AuthResponse AuthOK) @ frame (SequenceHeader q))" and ?ds = "healthyStream (concat (map frame ms))"
  obtain cs where cs: "clientAuth [1] (Some [2]) ?cs = (cs, None)" "incoming cs = frame (SequenceHeader q)"
    using clientAuth_verdict [of ?cs AuthOK "frame (SequenceHeader q)" "[1]" "[2]"] by auto
  then have "healthy cs" using clientAuth_request [of ?cs "[1]" "[2]"] by auto
  obtain ds where ds: "clientSeqHeader 0 ?ds = (ds, None)" "healthy ds" "incoming ds = concat (map frame ms)"
    using clientSeqHeader_sends [of ?ds 0] by (auto simp: healthyStream_def pending_def)
  show ?thesis
    using cs ds \<open>healthy cs\<close>
    by (intro exI [of _ cs] exI [of _ ds])
       (simp add: Client_dial_def demoTerminal_def Client_New_def demoNet_def dial_defs performQUICAuth_def)
qed

text \<open>Connected for the first time, and nothing has been typed.\<close>

definition idleClient :: "client_run \<Rightarrow> quicConn \<Rightarrow> bool" where
  "idleClient k q \<longleftrightarrow> k_marks k = [(0, 0)] \<and> k_old k = [] \<and> k_stdinCh k = [] \<and> \<not> k_stdinClosed k \<and> \<not> stale k
     \<and> k_coal k = Coalescer_New (k_now k) \<and> c_escape (k_c k) = NewEscapeProcessor \<and> c_sendSeq (k_c k) = 0
     \<and> healthy_conn (QuicConn q)"

lemma demo_connected:
  assumes "\<forall>m \<in> set ms. encodable m"
  shows "\<exists>k q. client_reach (demoTerminal tty) k \<and> k_raw k = tty \<and> listening k q \<and> k_dataCh k = [] \<and> parseAll (incoming (qc_data q)) = ms
    \<and> c_stdout (k_c k) = \<lparr>ws_sent = [], ws_room = None\<rparr> \<and> k_stdin k = [] \<and> length (k_marks k) = 1
    \<and> arrivals k = [(0, filter isData ms)] \<and> idleClient k q"
proof -
  let ?k0 = "Client_start (demoTerminal tty) 0"
  obtain cs ds where d: "dr_result (Client_dial (demoTerminal tty) (demoNet 0 ms)) = Inr (QuicConn \<lparr>qc_control = cs, qc_data = ds, qc_lastClientSeq = 0\<rparr>)"
      "healthy cs" "incoming cs = frame (SequenceHeader 0)" "incoming ds = concat (map frame ms)" "healthy ds"
    using demo_dial [of tty 0 ms] by blast
  let ?conn = "QuicConn \<lparr>qc_control = cs, qc_data = ds, qc_lastClientSeq = 0\<rparr>"
  obtain cs1 where cs1: "Stream_ReadMessage cs = (Inr (SequenceHeader 0), cs1)" "healthy cs1"
    using Stream_Read_frame [of "SequenceHeader 0" cs "[]"] d(2,3) by auto
  let ?conn1 = "QuicConn \<lparr>qc_control = cs1, qc_data = ds, qc_lastClientSeq = 0\<rparr>"
  have "Buffer_ReplaySince (Buffer_New 0) 0 = Some []" using sender_replay [OF sender_New, of 0 0] by auto
  then have x: "handleSequenceExchange (demoTerminal tty) ?conn = (?conn1, Exchanged)"
    using cs1(1) by (simp add: handleSequenceExchange_def quicConn_ReadControl_def demoTerminal_def Client_New_def)
  obtain cs2 where cs2: "Stream_WriteMessage cs1 (TerminalInfo ''vt100'') = (cs2, None)" "healthy cs2"
    using Stream_Write_healthy [OF _ cs1(2), of "TerminalInfo ''vt100''"] by auto
  let ?q = "\<lparr>qc_control = cs2, qc_data = ds, qc_lastClientSeq = 0\<rparr>"
  have t: "sendTerminalInfo (demoTerminal tty) ?conn1 = (QuicConn ?q, None)"
    using cs2 by (simp add: sendTerminalInfo_def demoTerminal_def Client_New_def quicConn_WriteControl_def)
  define k where "k = connected True None ?k0 ?conn"
  have "freshNetwork (demoNet 0 ms)" by (auto simp: freshNetwork_def demoNet_def)
  then have "client_step ?k0 k"
    unfolding k_def using d(1) by (intro client_step.dial_ok [of _ "demoNet 0 ms"]) (simp_all add: Client_start_def)
  then have "client_reach (demoTerminal tty) k" by (rule client_reach.step [OF client_reach.start])
  moreover have tty: "c_tty (demoTerminal tty) = tty" "c_stdout (demoTerminal tty) = \<lparr>ws_sent = [], ws_room = None\<rparr>"
    by (simp_all add: demoTerminal_def Client_New_def)
  then have "k_phase k = InLoop" "k_raw k = tty" "k_conn k = Some (QuicConn ?q)" "k_dataCh k = []" "k_readers k = [ControlStream, DataStream]"
      "c_stdout (k_c k) = \<lparr>ws_sent = [], ws_room = None\<rparr>" "k_stdin k = []" "length (k_marks k) = 1" "arrivals k = [(0, dataIn ?conn)]"
    using x t by (simp_all add: k_def connected_def Client_start_def Let_def sendResize_def arrivals_def demoTerminal_def Client_New_def)
  moreover have "headerOf ?conn = 0" using cs1(1) by (simp add: headerOf_def quicConn_ReadControl_def)
  then have "idleClient k ?q"
    using x t tty d(5) cs2(2)
    by (simp add: idleClient_def k_def connected_def Client_start_def Let_def sendResize_def demoTerminal_def Client_New_def stale_def
        client_recvTimeout_def EscapeProcessor_Reset_def NewEscapeProcessor_def healthy_conn_def)
  ultimately show ?thesis
    using parseAll_frames [OF assms, of "[]"] d(4) by (intro exI [of _ k] exI [of _ ?q]) (simp add: listening_def)
qed

lemma demo_listening:
  assumes "\<forall>m \<in> set ms. encodable m"
  shows "\<exists>k q. client_reach demoClient k \<and> listening k q \<and> k_dataCh k = [] \<and> parseAll (incoming (qc_data q)) = ms
    \<and> c_stdout (k_c k) = \<lparr>ws_sent = [], ws_room = None\<rparr> \<and> k_stdin k = [] \<and> length (k_marks k) = 1
    \<and> arrivals k = [(0, filter isData ms)] \<and> idleClient k q"
  using demo_connected [OF assms, of False] unfolding demoClient_def by blast

section \<open>Properties\<close>



text \<open>C6: What the client sends. In every reachable state the batches flushed so far are typed bytes, in the
  order they were typed and none twice (an escape's extra tilde, an abandoned chunk and what was waiting when a
  connection was lost are left out); and every connection ever made carries a contiguous run of the numbered
  batches, the live one up to the newest. A connection whose session reported a number that had been sent to it
  (or none) starts exactly after it, or else the batches waiting exceeded the catchup buffer.\<close>

theorem client_connections:
  assumes "client_reach (Client_New cfg out tty tm) k" and "length tm \<le> 65533" and "length (k_stdin k) < 2 ^ 64"
  shows "\<exists>ps. subseq (concat ps) (k_stdin k) \<and> (\<forall>p \<in> set ps. p \<noteq> []) \<and> length (k_marks k) = length (conns k)
    \<and> parts (cc_ReplaySize cfg) ps (cviews (conns k) (k_marks k)) (k_conn k \<noteq> None)"
proof -
  obtain ps where ps: "send_inv (cc_ReplaySize cfg) ps k" using client_reach_send [OF assms] by blast
  then have "subseq (concat ps) (k_stdin k)"
    using subseq_drop_mid [of "concat ps" "typedAhead k" "[]"] by (simp add: send_inv_def)
  with ps show ?thesis by (auto simp: send_inv_def send_core_def sender_inv_def sendable_def)
qed

theorem client_connections_witness:
  "\<exists>k ps. client_reach demoClient k \<and> length (conns k) = 1 \<and> parts 0 ps (cviews (conns k) (k_marks k)) True"
proof -
  obtain k q where k: "client_reach demoClient k" "listening k q" "k_stdin k = []" "length (k_marks k) = 1"
    using demo_listening [of "[]"] by auto
  with client_connections [OF k(1) [unfolded demoClient_def demoTerminal_def]] show ?thesis
    by (auto simp: listening_def)
qed

text \<open>C24: The loop of a connection never panics: while \<open>ioLoop\<close> runs, each of its cases that flushes or
  processes typed bytes can be carried out, whatever is queued: the escape buffer and the catchup ring are never
  indexed out of range.\<close>

theorem client_cases_total:
  assumes "client_reach (Client_New cfg out tty tm) k" and "length tm \<le> 65533" and "length (k_stdin k) < 2 ^ 64"
    and "k_conn k = Some conn"
  shows "io_stdinEOF conn k \<noteq> None \<and> io_timer conn k \<noteq> None
    \<and> (\<forall>d ds. k_stdinCh k = d # ds \<longrightarrow> io_stdin conn d (k\<lparr>k_stdinCh := ds\<rparr>) \<noteq> None)"
proof -
  obtain ps where ps: "send_inv (cc_ReplaySize cfg) ps k" using client_reach_send [OF assms(1-3)] by blast
  show ?thesis
    using io_eof_send [OF ps assms(4)] io_timer_send [OF ps assms(4)] io_stdin_send [OF ps assms(4)] by fastforce
qed

theorem client_cases_total_witness:
  "\<exists>k conn. client_reach demoClient k \<and> k_conn k = Some conn \<and> io_stdinEOF conn k \<noteq> None"
proof -
  obtain k q where k: "client_reach demoClient k" "listening k q" "k_stdin k = []"
    using demo_listening [of "[]"] by auto
  with client_cases_total [OF k(1) [unfolded demoClient_def demoTerminal_def], of "QuicConn q"] show ?thesis
    by (auto simp: listening_def)
qed

text \<open>C18: A listening client catches up. While a client is in the loop of a QUIC connection, has not met a read
  error and can write to stdout, it can always get to a state of the same kind in which nothing that arrived is
  left: then exactly the payloads of the queued and of the incoming data messages have been appended to stdout,
  in order.\<close>

theorem client_catches_up:
  assumes "client_reach c0 k" and "listening k q"
  shows "\<exists>k' q'. client_step\<^sup>*\<^sup>* k k' \<and> client_reach c0 k' \<and> listening k' q' \<and> queuedData k' q' = []
    \<and> ws_sent (c_stdout (k_c k')) = ws_sent (c_stdout (k_c k)) @ concat (map Payload (queuedData k q))"
  using catch_up [OF assms(2) refl] client_reach_steps [OF assms(1)] by (fastforce simp: queuedData_def)

theorem client_catches_up_witness:
  "\<exists>k. client_reach demoClient k \<and> ws_sent (c_stdout (k_c k)) = [104, 105, 33]"
proof -
  let ?ms = "[Data 1 [104], Heartbeat 3, Data 2 [105, 33]]"
  obtain k q where k: "client_reach demoClient k" "listening k q" "k_dataCh k = []" "parseAll (incoming (qc_data q)) = ?ms"
      "c_stdout (k_c k) = \<lparr>ws_sent = [], ws_room = None\<rparr>"
    using demo_listening [of ?ms] by (auto simp: size_defs)
  then have "queuedData k q = [Data 1 [104], Data 2 [105, 33]]" by (simp add: queuedData_def isData_def)
  with client_catches_up [OF k(1,2)] k(5) show ?thesis by auto
qed

end
