(* ===== verification/Session_Recv.thy ===== *)
theory Session_Recv
  imports Session_Run
begin

text \<open>
  The receiving side of a session: what of the data arriving on its connections reaches the shell's terminal. The
  invariant is proved relative to the one of the sending side, and under the condition that clients keep data off the
  control stream and send no empty batches.
\<close>

section \<open>The invariant\<close>



definition eventsOf :: "nat \<Rightarrow> streamEvent list \<Rightarrow> (conn_error + message) list" where
  "eventsOf i evs = map ev_res (filter (\<lambda>ev. ev_conn ev = i) evs)"





lemma eventsOf_simps [simp]:
  "eventsOf i [] = []" "eventsOf i (ev # evs) = (if ev_conn ev = i then ev_res ev # eventsOf i evs else eventsOf i evs)"
  "eventsOf i (evs @ evs') = eventsOf i evs @ eventsOf i evs'"
  by (simp_all add: eventsOf_def)














section \<open>Every step keeps it\<close>

























section \<open>In all reachable states\<close>











section \<open>A sample run\<close>





section \<open>Properties\<close>



end
