(* ===== verification/System.thy ===== *)
theory System
  imports Client_Send Session_Recv
begin

text \<open>
  The session and the client together. What the theorems need of the network is named: a stream
  delivers a prefix of what the peer wrote to it, and a client's connections are accepted in the order it
  made them.
\<close>

section \<open>What one end sent and the other received\<close>















lemma entryBytes_numbered: "entryBytes (numbered ps) = int (length (concat ps))"
  by (induction ps rule: rev_induct) (simp_all add: numbered_snoc entryBytes_def)


section \<open>A sample run of both ends\<close>




section \<open>Reconnecting over TCP\<close>

text \<open>
  One reconnection over TCP after the handshake, on a link that loses nothing: the session sends its header, the
  client reads it, resends what the session has not received and announces its terminal, all on the one
  stream, and the session handles the new connection.
\<close>

definition tcpSent :: "Conn \<Rightarrow> bytes" where
  "tcpSent c = (case c of TcpConn t \<Rightarrow> sent (tc_conn t) | QuicConn q \<Rightarrow> [])"

definition tcpReconnect :: "spawn_env \<Rightarrow> Client \<Rightarrow> Session \<Rightarrow> Session" where
  "tcpReconnect env c s =
     (let conn1 = fst (handleSequenceExchange c (TcpConn (newTCPConn (healthyStream (frame (SequenceHeader (s_recvSeq s)))) 0)));
          conn2 = fst (sendTerminalInfo c conn1)
      in fst (handleNewConn env s (TcpConn (newTCPConn (healthyStream (tcpSent conn2)) (c_recvSeq c)))))"

lemma tcp_write:
  assumes "healthy (tc_conn t)" and "encodable m"
  shows "\<exists>t'. Conn_WriteData (TcpConn t) m = (TcpConn t', None) \<and> Conn_WriteControl (TcpConn t) m = (TcpConn t', None)
    \<and> healthy (tc_conn t') \<and> sent (tc_conn t') = sent (tc_conn t) @ frame m"
  using Stream_Write_healthy [OF assms(2,1)] by (auto simp: conn_write_defs)

lemma tcp_writeAll:
  "healthy (tc_conn t) \<Longrightarrow> \<forall>m \<in> set ms. encodable m \<Longrightarrow>
     \<exists>t'. writeAll Conn_WriteData (TcpConn t) ms = (TcpConn t', None) \<and> healthy (tc_conn t')
       \<and> sent (tc_conn t') = sent (tc_conn t) @ concat (map frame ms)"
proof (induction ms arbitrary: t)
  case (Cons m ms)
  obtain t1 where t1: "Conn_WriteData (TcpConn t) m = (TcpConn t1, None)" "healthy (tc_conn t1)"
      "sent (tc_conn t1) = sent (tc_conn t) @ frame m"
    using tcp_write [of t m] Cons.prems by auto
  with Cons.IH [OF t1(2)] Cons.prems show ?case by auto
qed simp

lemma tcp_client_bytes:
  assumes "Buffer_ReplaySince (c_buf c) q = Some es" and "\<forall>x \<in> set es. encodable (toData x)" and "encodable (TerminalInfo (c_term c))"
    and "conn1 = fst (handleSequenceExchange c (TcpConn (newTCPConn (healthyStream (frame (SequenceHeader q))) 0)))"
  shows "tcpSent (fst (sendTerminalInfo c conn1)) = concat (map frame (map toData es)) @ frame (TerminalInfo (c_term c))"
proof -
  let ?st = "healthyStream (frame (SequenceHeader q))"
  obtain st where st: "Stream_ReadMessage ?st = (Inr (SequenceHeader q), st)" "st_w st = st_w ?st"
    using Stream_Read_frame [of "SequenceHeader q" ?st "[]"] by auto
  let ?t = "(newTCPConn ?st 0)\<lparr>tc_conn := st\<rparr>"
  obtain t1 where t1: "writeAll Conn_WriteData (TcpConn ?t) (map toData es) = (TcpConn t1, None)" "healthy (tc_conn t1)"
      "sent (tc_conn t1) = concat (map frame (map toData es))"
    using tcp_writeAll [of ?t "map toData es"] st(2) assms(2) by auto
  have "conn1 = TcpConn t1"
    using st t1(1) assms(1) unfolding assms(4)
    by (simp add: handleSequenceExchange_def tcpConn_ReadControl_def newTCPConn_def)
  moreover obtain t2 where "Conn_WriteControl (TcpConn t1) (TerminalInfo (c_term c)) = (TcpConn t2, None)"
      "sent (tc_conn t2) = sent (tc_conn t1) @ frame (TerminalInfo (c_term c))"
    using tcp_write [OF t1(2) assms(3)] by blast
  ultimately show ?thesis using t1(3) by (simp add: sendTerminalInfo_def tcpSent_def del: Conn_WriteControl.simps)
qed

lemma tcp_refused:
  assumes "sess_inv ps Ls s" and "length (flushed ps (s_coal s)) < 2 ^ 64"
    and "Buffer_ReplaySince (c_buf c) (s_recvSeq s) = Some (e # es)" and "\<forall>x \<in> set (e # es). encodable (toData x)"
    and "encodable (TerminalInfo (c_term c))"
  shows "s_conn (tcpReconnect env c s) = None \<and> s_recvSeq (tcpReconnect env c s) = s_recvSeq s
    \<and> sess_inv (flushed ps (s_coal s)) (Ls @ [length (flushed ps (s_coal s))]) (tcpReconnect env c s)
    \<and> co_buf (s_coal (tcpReconnect env c s)) = []"
proof -
  define conn1 where "conn1 = fst (handleSequenceExchange c (TcpConn (newTCPConn (healthyStream (frame (SequenceHeader (s_recvSeq s)))) 0)))"
  define conn where "conn = TcpConn (newTCPConn (healthyStream (tcpSent (fst (sendTerminalInfo c conn1)))) (c_recvSeq c))"
  have run: "tcpReconnect env c s = fst (handleNewConn env s conn)" by (simp add: tcpReconnect_def conn1_def conn_def)
  have "tcpSent (fst (sendTerminalInfo c conn1)) = concat (map frame (map toData (e # es))) @ frame (TerminalInfo (c_term c))"
    using tcp_client_bytes [OF assms(3-5) conn1_def] by simp
  then have "controlIn conn = frame (toData e) @ (concat (map frame (map toData es)) @ frame (TerminalInfo (c_term c)))"
    by (simp add: conn_def newTCPConn_def)
  moreover have c: "fresh_conn conn" "healthy_conn conn"
    using wellSent_whole [of "[]" "st_w (healthyStream bs)" for bs]
    by (simp_all add: conn_def newTCPConn_def fresh_conn_def healthy_conn_def conn_view_defs healthyStream_def)
  moreover have "encodable (toData e)" "\<forall>t. toData e \<noteq> TerminalInfo t" using assms(4) by (simp_all add: toData_def)
  ultimately obtain s' where s': "handleNewConn env s conn = (s', Continue)" "s_conn s' = None"
    using attach_refused [OF assms(1) c, where env = env] by blast
  from handleNewConn_inv [OF assms(1) c(1) refl assms(2) s'(1)] s' run show ?thesis by simp
qed

section \<open>Properties\<close>





text \<open>C7: Over TCP, unacknowledged input makes reconnecting impossible. If a client that reconnects over TCP has typed
  batches the session has not received, it resends them before its TerminalInfo, on the one stream both share; the
  session reads a Data message where it expects TerminalInfo and closes the connection without having taken
  the data. Neither side's state has moved, so the same happens again: however often the client reconnects, over a
  link that loses nothing, the session never attaches it.\<close>

theorem tcp_reconnect_livelock:
  assumes "sess_inv ps Ls s" and "length (flushed ps (s_coal s)) < 2 ^ 64"
    and "Buffer_ReplaySince (c_buf c) (s_recvSeq s) = Some (e # es)" and "\<forall>x \<in> set (e # es). encodable (toData x)"
    and "encodable (TerminalInfo (c_term c))" and "0 < n"
  shows "s_conn ((tcpReconnect env c ^^ n) s) = None \<and> s_recvSeq ((tcpReconnect env c ^^ n) s) = s_recvSeq s"
proof -
  let ?ps = "flushed ps (s_coal s)"
  have "\<exists>Ls'. let t = (tcpReconnect env c ^^ Suc n) s in
      sess_inv ?ps Ls' t \<and> co_buf (s_coal t) = [] \<and> s_conn t = None \<and> s_recvSeq t = s_recvSeq s" for n
  proof (induction n)
    case 0
    show ?case using tcp_refused [OF assms(1-5), of env] by (auto simp: Let_def)
  next
    case (Suc n)
    let ?t = "(tcpReconnect env c ^^ Suc n) s"
    obtain Ls' where t: "sess_inv ?ps Ls' ?t" "co_buf (s_coal ?t) = []" "s_recvSeq ?t = s_recvSeq s"
      using Suc.IH unfolding Let_def by blast
    have same: "flushed ?ps (s_coal ?t) = ?ps" using t(2) by (simp add: flushed_def)
    have "(tcpReconnect env c ^^ Suc (Suc n)) s = tcpReconnect env c ?t" by simp
    with tcp_refused [OF t(1), of c e es env] same assms(2-5) t(3) show ?case unfolding Let_def by metis
  qed
  from this [of "n - 1"] assms(6) show ?thesis by (auto simp: Let_def)
qed

theorem tcp_reconnect_livelock_witness:
  "\<exists>c. \<forall>n > 0. s_conn ((tcpReconnect demoEnv c ^^ n) (Session_New demoConfig 0)) = None"
proof -
  obtain b where b: "sender_inv 0 [[97]] b 1"
    using sender_store [OF sender_New, of "[97]" 0] by (auto simp: sendable_def size_defs)
  define c where "c = demoClient\<lparr>c_buf := b, c_sendSeq := 1\<rparr>"
  obtain k where k: "Buffer_ReplaySince b 0 = Some (drop k (numbered [[97]]))" "k = 0 \<or> exceeds 0 (drop 0 (numbered [[97]]))"
    using sender_replay [OF b, of 0] by auto
  have "\<not> exceeds 0 (numbered [[97]])"
    using entryBytes_numbered [of "[[97]]"] by (simp add: exceeds_def Buffer_New_def DefaultBufferSize_def)
  with k have r: "Buffer_ReplaySince (c_buf c) (s_recvSeq (Session_New demoConfig 0)) = Some [Entry 1 [97]]"
    by (auto simp: c_def numbered_def Session_New_def)
  have "s_conn ((tcpReconnect demoEnv c ^^ n) (Session_New demoConfig 0)) = None" if "0 < n" for n
    using tcp_reconnect_livelock [OF Session_New_inv [of demoConfig 0] _ r, of n demoEnv] that
    by (simp add: flushed_def Session_New_def coal_defs toData_def size_defs c_def demoClient_def demoTerminal_def Client_New_def)
  then show ?thesis by blast
qed

end
