(* ===== verification/Client_Tty.thy ===== *)
theory Client_Tty
  imports Client_Send
begin

text \<open>
  The user's terminal: \<open>Run\<close> puts it into raw mode for the time of a connection and restores it whichever way the connection ends.
\<close>

section \<open>Invariant\<close>



lemma in_loop_phases [simp]:
  "in_loop InLoop" "in_loop Draining" "in_loop AwaitShutdown" "\<not> in_loop Dialing" "\<not> in_loop (Returned e)"
  by (simp_all add: in_loop_def)

lemma exitLoop_tty [simp]:
  "\<not> k_raw (exitLoop reason conn k)" "\<not> in_loop (k_phase (exitLoop reason conn k))"
  "c_tty (k_c (exitLoop reason conn k)) = c_tty (k_c k)"
  by (cases reason; simp add: exitLoop_def profiled_def closeAnd_def Let_def)+








section \<open>Properties\<close>



end
