(* ===== verification/Go_Strings.thy ===== *)
theory Go_Strings
  imports Goet_Prelude
begin

text \<open>
  What the program uses of the standard library on strings and numbers: \<^verbatim>\<open>strings\<close>, \<^verbatim>\<open>strconv\<close>, \<^verbatim>\<open>encoding/hex\<close> and
  \<^verbatim>\<open>path/filepath\<close>. Strings are ASCII.
\<close>

section \<open>Functions\<close>

definition isSpace :: "char \<Rightarrow> bool" where
  "isSpace c \<longleftrightarrow> c \<in> {CHR 0x09, CHR 0x0A, CHR 0x0B, CHR 0x0C, CHR 0x0D, CHR '' ''}"

definition TrimSpace :: "string \<Rightarrow> string" where
  "TrimSpace s = rev (dropWhile isSpace (rev (dropWhile isSpace s)))"

definition TrimChars :: "string \<Rightarrow> string \<Rightarrow> string" where
  "TrimChars s cutset = rev (dropWhile (\<lambda>c. c \<in> set cutset) (rev (dropWhile (\<lambda>c. c \<in> set cutset) s)))"

fun fieldsFrom :: "string \<Rightarrow> string \<Rightarrow> string list" where
  "fieldsFrom cur [] = (if cur = [] then [] else [cur])"
| "fieldsFrom cur (c # cs) =
     (if isSpace c then (if cur = [] then [] else [cur]) @ fieldsFrom [] cs else fieldsFrom (cur @ [c]) cs)"

definition Fields :: "string \<Rightarrow> string list" where
  "Fields s = fieldsFrom [] s"

definition HasPrefix :: "string \<Rightarrow> string \<Rightarrow> bool" where
  "HasPrefix s p \<longleftrightarrow> take (length p) s = p"

definition digitVal :: "char \<Rightarrow> nat option" where
  "digitVal c = (let v = of_char c :: nat in if 48 \<le> v \<and> v \<le> 57 then Some (v - 48) else None)"

fun decimal :: "nat \<Rightarrow> string \<Rightarrow> nat option" where
  "decimal acc [] = Some acc"
| "decimal acc (c # cs) = (case digitVal c of None \<Rightarrow> None | Some d \<Rightarrow> decimal (10 * acc + d) cs)"

text \<open>\<^verbatim>\<open>strconv.Atoi\<close>: the value and whether there was an error; out of range gives the nearest bound and an error.\<close>

definition clampInt :: "int \<Rightarrow> int \<times> bool" where
  "clampInt v = (if v > 2 ^ 63 - 1 then (2 ^ 63 - 1, True) else if v < - (2 ^ 63) then (- (2 ^ 63), True) else (v, False))"

definition Atoi :: "string \<Rightarrow> int \<times> bool" where
  "Atoi s =
     (let (neg, ds) = (case s of c # cs \<Rightarrow> if c = CHR ''-'' then (True, cs) else if c = CHR ''+'' then (False, cs) else (False, s)
                       | [] \<Rightarrow> (False, []))
      in if ds = [] then (0, True)
         else case decimal 0 ds of None \<Rightarrow> (0, True) | Some n \<Rightarrow> clampInt (if neg then - int n else int n))"

definition digitChar :: "nat \<Rightarrow> char" where
  "digitChar n = char_of (48 + n)"

fun decDigits :: "nat \<Rightarrow> string" where
  "decDigits n = (if n < 10 then [digitChar n] else decDigits (n div 10) @ [digitChar (n mod 10)])"

declare decDigits.simps [simp del]

definition Itoa :: "int \<Rightarrow> string" where
  "Itoa i = (if i < 0 then CHR ''-'' # decDigits (nat (- i)) else decDigits (nat i))"

definition hexDigit :: "nat \<Rightarrow> char" where
  "hexDigit n = char_of (if n < 10 then 48 + n else 87 + n)"

definition fromHexChar :: "char \<Rightarrow> nat option" where
  "fromHexChar c =
     (let v = of_char c :: nat in
      if 48 \<le> v \<and> v \<le> 57 then Some (v - 48)
      else if 97 \<le> v \<and> v \<le> 102 then Some (v - 87)
      else if 65 \<le> v \<and> v \<le> 70 then Some (v - 55) else None)"

definition hex_EncodeToString :: "bytes \<Rightarrow> string" where
  "hex_EncodeToString bs = concat (map (\<lambda>b. [hexDigit (unat b div 16), hexDigit (unat b mod 16)]) bs)"

fun hex_DecodeString :: "string \<Rightarrow> bytes option" where
  "hex_DecodeString [] = Some []"
| "hex_DecodeString [c] = None"
| "hex_DecodeString (a # b # cs) =
     (case (fromHexChar a, fromHexChar b, hex_DecodeString cs) of
        (Some x, Some y, Some bs) \<Rightarrow> Some (of_nat (16 * x + y) # bs)
      | _ \<Rightarrow> None)"

text \<open>\<^verbatim>\<open>filepath.Base\<close>: the last path element.\<close>

definition filepath_Base :: "string \<Rightarrow> string" where
  "filepath_Base path =
     (if path = [] then ''.''
      else let p = rev (dropWhile (\<lambda>c. c = CHR ''/'') (rev path)) in
           if p = [] then ''/'' else rev (takeWhile (\<lambda>c. c \<noteq> CHR ''/'') (rev p)))"

section \<open>Facts\<close>

lemma digitVal_digit: "d < 10 \<Longrightarrow> digitVal (digitChar d) = Some d"
  by (simp add: digitVal_def digitChar_def Let_def)

lemma digit_visible: "d < 10 \<Longrightarrow> digitChar d \<noteq> CHR ''-'' \<and> digitChar d \<noteq> CHR ''+'' \<and> \<not> isSpace (digitChar d)"
  by (auto simp: isSpace_def digitChar_def dest!: arg_cong [of _ _ "of_char :: char \<Rightarrow> nat"])

lemma decimal_append: "decimal acc (xs @ ys) = (case decimal acc xs of None \<Rightarrow> None | Some n \<Rightarrow> decimal n ys)"
  by (induction acc xs rule: decimal.induct) (simp_all split: option.splits)

lemma decimal_digits: "decimal 0 (decDigits n) = Some n"
proof (induction n rule: decDigits.induct)
  case (1 n)
  then show ?case
    using digitVal_digit [of n] digitVal_digit [of "n mod 10"]
    by (subst decDigits.simps) (auto simp: decimal_append)
qed

lemma decDigits_digits: "c \<in> set (decDigits n) \<Longrightarrow> \<exists>d < 10. c = digitChar d"
proof (induction n rule: decDigits.induct)
  case (1 n)
  show ?case
  proof (cases "n < 10")
    case True
    with "1.prems" show ?thesis by (auto simp: decDigits.simps [of n])
  next
    case False
    with "1.prems" have "c \<in> set (decDigits (n div 10)) \<or> c = digitChar (n mod 10)" by (auto simp: decDigits.simps [of n])
    then show ?thesis
    proof
      assume "c = digitChar (n mod 10)"
      moreover have "n mod 10 < 10" by simp
      ultimately show ?thesis by blast
    qed (use "1.IH" [OF False] in blast)
  qed
qed

lemma decDigits_nonempty: "decDigits n \<noteq> []"
  by (simp add: decDigits.simps [of n])

lemma Atoi_Itoa:
  assumes "0 \<le> i" and "i < 2 ^ 63"
  shows "Atoi (Itoa i) = (i, False)"
proof -
  obtain c cs where c: "decDigits (nat i) = c # cs" using decDigits_nonempty by (cases "decDigits (nat i)") auto
  then have "c \<noteq> CHR ''-''" "c \<noteq> CHR ''+''" using decDigits_digits [of c "nat i"] digit_visible by auto
  with c decimal_digits [of "nat i"] assms show ?thesis by (simp add: Atoi_def Itoa_def Let_def clampInt_def)
qed

lemma fromHex_hexDigit: "n < 16 \<Longrightarrow> fromHexChar (hexDigit n) = Some n"
  by (auto simp: fromHexChar_def hexDigit_def Let_def)

lemma hex_round_trip: "hex_DecodeString (hex_EncodeToString bs) = Some bs"
proof (induction bs)
  case (Cons b bs)
  have "unat b < 256" using unsigned_less [of b, where 'a = nat] by simp
  then have "fromHexChar (hexDigit (unat b div 16)) = Some (unat b div 16)" "fromHexChar (hexDigit (unat b mod 16)) = Some (unat b mod 16)"
    by (auto intro!: fromHex_hexDigit)
  with Cons show ?case by (simp add: hex_EncodeToString_def)
qed (simp add: hex_EncodeToString_def)

lemma hexDigit_visible: "n < 16 \<Longrightarrow> \<not> isSpace (hexDigit n) \<and> hexDigit n \<noteq> CHR 0x0A"
  by (auto simp: isSpace_def hexDigit_def dest!: arg_cong [of _ _ "of_char :: char \<Rightarrow> nat"])

lemma TrimSpace_visible:
  assumes "\<forall>c \<in> set s. \<not> isSpace c"
  shows "TrimSpace s = s" and "TrimSpace (s @ [CHR 0x0A]) = s"
proof -
  have drop: "dropWhile isSpace xs = xs" if "\<forall>c \<in> set xs. \<not> isSpace c" for xs using that by (cases xs) auto
  from assms show "TrimSpace s = s" by (simp add: TrimSpace_def drop)
  have nl: "isSpace (CHR 0x0A)" by (simp add: isSpace_def)
  show "TrimSpace (s @ [CHR 0x0A]) = s"
  proof (cases s)
    case (Cons c cs)
    with assms nl show ?thesis by (simp add: TrimSpace_def drop)
  qed (simp add: TrimSpace_def nl)
qed

lemma hex_visible: "\<forall>c \<in> set (hex_EncodeToString bs). \<not> isSpace c \<and> c \<noteq> CHR 0x0A"
proof -
  have "unat b div 16 < 16 \<and> unat b mod 16 < 16" for b :: byte using unsigned_less [of b, where 'a = nat] by auto
  then show ?thesis using hexDigit_visible by (auto simp: hex_EncodeToString_def)
qed

lemma takeWhile_line: "\<forall>c \<in> set s. c \<noteq> CHR 0x0A \<Longrightarrow> takeWhile (\<lambda>c. c \<noteq> CHR 0x0A) (s @ CHR 0x0A # rest) = s"
  by (simp add: takeWhile_append2)

lemma decDigits_length: "n < 10 ^ Suc k \<Longrightarrow> length (decDigits n) \<le> Suc k"
proof (induction k arbitrary: n)
  case 0
  then show ?case by (simp add: decDigits.simps [of n])
next
  case (Suc k)
  then have "n div 10 < 10 ^ Suc k" by (simp add: div_less_iff_less_mult mult.commute)
  from Suc.IH [OF this] show ?case by (simp add: decDigits.simps [of n])
qed

lemma TrimSpace_line:
  assumes "s \<noteq> []" and "\<not> isSpace (hd s)" and "\<not> isSpace (last s)"
  shows "TrimSpace (s @ [CHR 0x0A]) = s"
proof -
  obtain c cs where c: "s = c # cs" using assms(1) by (cases s) auto
  obtain ds d where d: "s = ds @ [d]" using assms(1) by (cases s rule: rev_cases) auto
  have "dropWhile isSpace (s @ [CHR 0x0A]) = s @ [CHR 0x0A]" using c assms(2) by simp
  moreover have "dropWhile isSpace (rev (s @ [CHR 0x0A])) = rev s" using d assms(3) by (simp add: isSpace_def)
  ultimately show ?thesis by (simp add: TrimSpace_def)
qed

lemma fieldsFrom_word:
  assumes "\<forall>c \<in> set w. \<not> isSpace c"
  shows "fieldsFrom cur (w @ cs) = fieldsFrom (cur @ w) cs"
  using assms by (induction w arbitrary: cur) simp_all

lemma fields_words:
  assumes "\<forall>c \<in> set w. \<not> isSpace c" and "w \<noteq> []"
  shows "fieldsFrom [] (w @ CHR '' '' # cs) = w # fieldsFrom [] cs" and "fieldsFrom [] w = [w]"
  using fieldsFrom_word [OF assms(1), of "[]" "CHR '' '' # cs"] fieldsFrom_word [OF assms(1), of "[]" "[]"] assms(2)
  by (simp_all add: isSpace_def)

lemma TrimChars_wrapped:
  assumes "a \<in> set cutset" and "b \<in> set cutset" and "set w \<inter> set cutset = {}"
  shows "TrimChars (a # w @ [b]) cutset = w"
proof -
  have drop: "dropWhile (\<lambda>c. c \<in> set cutset) xs = xs" if "set xs \<inter> set cutset = {}" for xs using that by (cases xs) auto
  have "dropWhile (\<lambda>c. c \<in> set cutset) (w @ [b]) = (if w = [] then [] else w @ [b])"
    using assms by (cases w) auto
  then show ?thesis using assms drop [of "rev w"] by (simp add: TrimChars_def)
qed

end
