(* ===== verification/Bootstrap.thy ===== *)
theory Bootstrap
  imports Go_Strings Client
begin

text \<open>
  The SSH bootstrap with remote installation (\<^verbatim>\<open>internal/client/ssh.go\<close>, \<^verbatim>\<open>install.go\<close>). What ssh, the network and the file system answer
  is an argument; the commands run and the files touched are part of the results.
\<close>

section \<open>SSH\<close>

record SSHResult =
  sr_Host :: string
  sr_Port :: int
  sr_Passkey :: bytes
  sr_SessionID :: string

datatype install_error =
    ErrDetectArch string | ErrUnameOutput string | ErrUnsupportedOS string | ErrUnsupportedArch string
  | ErrExecutable | ErrDownload | ErrDownloadStatus int | ErrCreateTemp | ErrWriteTemp | ErrOpenBinary | ErrTransfer

datatype ssh_error =
    ErrGeneratePasskey | ErrStdinPipe | ErrStdoutPipe | ErrStartSSH | ErrWritePasskey
  | ErrInvalidPort string | ErrReadStdout | ErrNotInstalled | ErrPortTimeout
  | ErrVersionOutput string | ErrSuggestInstall string string | ErrInstall install_error | ErrAfterInstall ssh_error

text \<open>What ssh writes to stdout: some text and then EOF, an error, or nothing in time.\<close>

datatype ssh_stdout = StdoutText string | StdoutError | StdoutSilent

record host_env =
  he_random :: "nat \<Rightarrow> unit + bytes"
  he_stdinPipe :: bool
  he_stdoutPipe :: bool
  he_start :: bool
  he_stdinWrite :: bool
  he_stdout :: "string list \<Rightarrow> string \<Rightarrow> ssh_stdout"
  he_run :: "string list \<Rightarrow> string \<times> bool"
  he_GOOS :: string
  he_GOARCH :: string
  he_Executable :: "string option"
  he_Open :: "string \<Rightarrow> bool"
  he_transfer :: "string list \<Rightarrow> bool"
  he_Get :: "string \<Rightarrow> int option"
  he_CreateTemp :: "string option"
  he_Copy :: bool

datatype ssh_action = StartedSSH "string list" | KilledAndReaped | Transferred "string list" | CreatedTemp string | RemovedTemp string

definition remoteGoetPath :: string where "remoteGoetPath = ''~/.local/bin/goet''"

definition sshArgs :: "string \<Rightarrow> string \<Rightarrow> string list" where
  "sshArgs user host = (if user \<noteq> [] then [''-l'', user] else []) @ [''-o'', ''BatchMode=yes'', host]"

definition parseDestination :: "string \<Rightarrow> string \<times> string" where
  "parseDestination dest =
     (let r = rev dest; h = takeWhile (\<lambda>c. c \<noteq> CHR ''@'') r in
      if h = r then ([], dest) else (rev (drop (Suc (length h)) r), rev h))"

text \<open>
  \<^verbatim>\<open>bufio.Scanner\<close> with its limit of 64 KB: the first line without its end, nothing at EOF, or an error.
\<close>

definition scanLine :: "string \<Rightarrow> unit + string option" where
  "scanLine s =
     (let line = takeWhile (\<lambda>c. c \<noteq> CHR 0x0A) s in
      if s = [] then Inr None
      else if length line \<ge> 64 * 1024 then Inl ()
      else Inr (Some (if line \<noteq> [] \<and> last line = CHR 0x0D then butlast line else line)))"

definition readPort :: "ssh_stdout \<Rightarrow> ssh_error + int" where
  "readPort out =
     (case out of
        StdoutSilent \<Rightarrow> Inl ErrPortTimeout
      | StdoutError \<Rightarrow> Inl ErrReadStdout
      | StdoutText s \<Rightarrow>
          (case scanLine s of
             Inl e \<Rightarrow> Inl ErrReadStdout
           | Inr None \<Rightarrow> Inl ErrNotInstalled
           | Inr (Some line) \<Rightarrow>
               (case Atoi (TrimSpace line) of
                  (port, False) \<Rightarrow> Inr port
                | (port, True) \<Rightarrow> Inl (ErrInvalidPort (TrimSpace line)))))"

definition sessionArgs :: "string \<Rightarrow> string \<Rightarrow> string \<Rightarrow> string \<Rightarrow> int \<Rightarrow> string list" where
  "sessionArgs user host goetPath sessionID replaySize =
     sshArgs user host @ [goetPath, ''session'', ''-f'', sessionID, ''-p'', ''0'']
       @ (if replaySize > 0 \<and> replaySize \<noteq> DefaultBufferSize then [''-replay-size'', Itoa replaySize] else [])"

definition spawnSSH :: "host_env \<Rightarrow> string \<Rightarrow> string \<Rightarrow> string \<Rightarrow> int \<Rightarrow> (ssh_error + SSHResult) \<times> ssh_action list" where
  "spawnSSH env user host goetPath replaySize =
     (case GeneratePasskey (he_random env) of
        Inl e \<Rightarrow> (Inl ErrGeneratePasskey, [])
      | Inr passkey \<Rightarrow>
          (let passkeyHex = hex_EncodeToString passkey;
               sessionID = hex_EncodeToString (take 4 passkey);
               args = sessionArgs user host goetPath sessionID replaySize
           in if \<not> he_stdinPipe env then (Inl ErrStdinPipe, [])
              else if \<not> he_stdoutPipe env then (Inl ErrStdoutPipe, [])
              else if \<not> he_start env then (Inl ErrStartSSH, [])
              else if \<not> he_stdinWrite env then (Inl ErrWritePasskey, [StartedSSH args, KilledAndReaped])
              else case readPort (he_stdout env args (passkeyHex @ [CHR 0x0A])) of
                     Inl e \<Rightarrow> (Inl e, [StartedSSH args, KilledAndReaped])
                   | Inr port \<Rightarrow>
                       (Inr \<lparr>sr_Host = host, sr_Port = port, sr_Passkey = passkey, sr_SessionID = sessionID\<rparr>,
                        [StartedSSH args, KilledAndReaped])))"

section \<open>Remote installation\<close>

definition sshRun :: "host_env \<Rightarrow> string \<Rightarrow> string \<Rightarrow> string \<Rightarrow> string + string" where
  "sshRun env user host command =
     (case he_run env (sshArgs user host @ [command]) of
        (out, ok) \<Rightarrow> if \<not> ok then Inl out else Inr (TrimSpace out))"

definition parseUnameOutput :: "string \<Rightarrow> install_error + string \<times> string" where
  "parseUnameOutput output =
     (case Fields output of
        [kern, machine] \<Rightarrow>
          (case (if kern = ''Linux'' then Some ''linux'' else if kern = ''Darwin'' then Some ''darwin'' else None) of
             None \<Rightarrow> Inl (ErrUnsupportedOS kern)
           | Some goos \<Rightarrow>
               (case (if machine = ''x86_64'' then Some ''amd64''
                      else if machine = ''aarch64'' \<or> machine = ''arm64'' then Some ''arm64'' else None) of
                  None \<Rightarrow> Inl (ErrUnsupportedArch machine)
                | Some goarch \<Rightarrow> Inr (goos, goarch)))
      | _ \<Rightarrow> Inl (ErrUnameOutput output))"

definition detectRemoteArch :: "host_env \<Rightarrow> string \<Rightarrow> string \<Rightarrow> install_error + string \<times> string" where
  "detectRemoteArch env user host =
     (case sshRun env user host ''uname -sm'' of Inl out \<Rightarrow> Inl (ErrDetectArch out) | Inr out \<Rightarrow> parseUnameOutput out)"

definition installCmd :: string where
  "installCmd = ''mkdir -p ~/.local/bin && cat > '' @ remoteGoetPath @ '' && chmod +x '' @ remoteGoetPath"

definition transferBinary :: "host_env \<Rightarrow> string \<Rightarrow> string \<Rightarrow> string \<Rightarrow> install_error option \<times> ssh_action list" where
  "transferBinary env user host localPath =
     (if \<not> he_Open env localPath then (Some ErrOpenBinary, [])
      else let args = sshArgs user host @ [installCmd] in
           if he_transfer env args then (None, [Transferred args]) else (Some ErrTransfer, []))"

definition releaseURL :: "string \<Rightarrow> string \<Rightarrow> string" where
  "releaseURL goos goarch =
     ''https://github.com/chronologos/goet/releases/latest/download/goet-'' @ goos @ ''-'' @ goarch"

definition downloadRelease :: "host_env \<Rightarrow> string \<Rightarrow> string \<Rightarrow> (install_error + string) \<times> ssh_action list" where
  "downloadRelease env goos goarch =
     (case he_Get env (releaseURL goos goarch) of
        None \<Rightarrow> (Inl ErrDownload, [])
      | Some status \<Rightarrow>
          (if status \<noteq> 200 then (Inl (ErrDownloadStatus status), [])
           else case he_CreateTemp env of
             None \<Rightarrow> (Inl ErrCreateTemp, [])
           | Some tmp \<Rightarrow>
               (if \<not> he_Copy env then (Inl ErrWriteTemp, [CreatedTemp tmp, RemovedTemp tmp])
                else (Inr tmp, [CreatedTemp tmp]))))"

definition installRemote :: "host_env \<Rightarrow> string \<Rightarrow> string \<Rightarrow> install_error option \<times> ssh_action list" where
  "installRemote env user host =
     (case detectRemoteArch env user host of
        Inl e \<Rightarrow> (Some e, [])
      | Inr (goos, goarch) \<Rightarrow>
          (if goos = he_GOOS env \<and> goarch = he_GOARCH env
           then (case he_Executable env of
                   None \<Rightarrow> (Some ErrExecutable, [])
                 | Some path \<Rightarrow> transferBinary env user host path)
           else (case downloadRelease env goos goarch of
                   (Inl e, acts) \<Rightarrow> (Some e, acts)
                 | (Inr path, acts) \<Rightarrow>
                     (case transferBinary env user host path of
                        (e, acts2) \<Rightarrow> (e, acts @ acts2 @ [RemovedTemp path])))))"

definition parseVersionOutput :: "string \<Rightarrow> ssh_error + string" where
  "parseVersionOutput output =
     (case Fields output of
        [goet, commit] \<Rightarrow> if goet \<noteq> ''goet'' then Inl (ErrVersionOutput output) else Inr commit
      | [goet, ver, commit] \<Rightarrow> if goet \<noteq> ''goet'' then Inl (ErrVersionOutput output) else Inr (TrimChars commit ''()'')
      | _ \<Rightarrow> Inl (ErrVersionOutput output))"

definition getRemoteVersion :: "host_env \<Rightarrow> string \<Rightarrow> string \<Rightarrow> ssh_error + string" where
  "getRemoteVersion env user host =
     (case sshRun env user host ''goet --version'' of
        Inr out \<Rightarrow> parseVersionOutput out
      | Inl _ \<Rightarrow>
          (case sshRun env user host (remoteGoetPath @ '' --version'') of
             Inl _ \<Rightarrow> Inl ErrNotInstalled
           | Inr out \<Rightarrow> parseVersionOutput out))"

definition spawnWithInstall ::
    "host_env \<Rightarrow> string \<Rightarrow> string \<Rightarrow> string \<Rightarrow> int \<Rightarrow> (ssh_error + SSHResult) \<times> ssh_action list" where
  "spawnWithInstall env localCommit user host replaySize =
     (if getRemoteVersion env user host = Inr localCommit then spawnSSH env user host ''goet'' replaySize
      else case installRemote env user host of
        (Some e, acts) \<Rightarrow> (Inl (ErrInstall e), acts)
      | (None, acts) \<Rightarrow>
          (case spawnSSH env user host remoteGoetPath replaySize of
             (Inl e, acts2) \<Rightarrow> (Inl (ErrAfterInstall e), acts @ acts2)
           | (Inr r, acts2) \<Rightarrow> (Inr r, acts @ acts2)))"

definition SpawnSSH ::
    "host_env \<Rightarrow> string \<Rightarrow> string \<Rightarrow> bool \<Rightarrow> int \<Rightarrow> (ssh_error + SSHResult) \<times> ssh_action list" where
  "SpawnSSH env localCommit destination install replaySize =
     (case parseDestination destination of
        (user, host) \<Rightarrow>
          if install then spawnWithInstall env localCommit user host replaySize
          else case spawnSSH env user host ''goet'' replaySize of
                 (Inl ErrNotInstalled, acts) \<Rightarrow> (Inl (ErrSuggestInstall host destination), acts)
               | r \<Rightarrow> r)"

text \<open>Once the listener is ready the session prints its port on a line of its own.\<close>

definition printPort :: "int \<Rightarrow> string" where
  "printPort port = Itoa port @ [CHR 0x0A]"

lemma readPort_line:
  assumes "0 \<le> port" and "port < 2 ^ 63"
  shows "readPort (StdoutText (printPort port @ rest)) = Inr port"
proof -
  have digits: "\<forall>c \<in> set (Itoa port). \<not> isSpace c" using decDigits_digits digit_visible assms(1) by (force simp: Itoa_def)
  then have vis: "\<forall>c \<in> set (Itoa port). c \<noteq> CHR 0x0A" "\<forall>c \<in> set (Itoa port). c \<noteq> CHR 0x0D" by (auto simp: isSpace_def)
  have "nat port < 10 ^ Suc 18" using assms by simp
  then have len: "length (Itoa port) < 64 * 1024" using decDigits_length [of "nat port" 18] assms(1) by (simp add: Itoa_def)
  have ne: "Itoa port \<noteq> []" using assms(1) decDigits_nonempty by (simp add: Itoa_def)
  have "takeWhile (\<lambda>c. c \<noteq> CHR 0x0A) (printPort port @ rest) = Itoa port"
    using takeWhile_line [OF vis(1), of rest] by (simp add: printPort_def)
  moreover have "last (Itoa port) \<noteq> CHR 0x0D" using vis(2) ne last_in_set by blast
  ultimately have "scanLine (printPort port @ rest) = Inr (Some (Itoa port))" using len by (simp add: scanLine_def printPort_def)
  then show ?thesis using TrimSpace_visible(1) [OF digits] Atoi_Itoa [OF assms] by (simp add: readPort_def)
qed

section \<open>What is left behind\<close>

definition isStart :: "ssh_action \<Rightarrow> bool" where
  "isStart a \<longleftrightarrow> (case a of StartedSSH args \<Rightarrow> True | _ \<Rightarrow> False)"

text \<open>Every started ssh is killed and waited for, and every temporary file removed.\<close>

definition tidy :: "ssh_action list \<Rightarrow> bool" where
  "tidy acts \<longleftrightarrow> length (filter isStart acts) = length (filter (\<lambda>a. a = KilledAndReaped) acts)
     \<and> (\<forall>tmp. length (filter (\<lambda>a. a = CreatedTemp tmp) acts) = length (filter (\<lambda>a. a = RemovedTemp tmp) acts))"

lemma tidy_Nil [simp]: "tidy []"
  by (simp add: tidy_def)

lemma tidy_append: "tidy xs \<Longrightarrow> tidy ys \<Longrightarrow> tidy (xs @ ys)"
  by (simp add: tidy_def)

lemma tidy_spawnSSH: "tidy (snd (spawnSSH env user host path n))"
  by (simp add: spawnSSH_def Let_def tidy_def isStart_def split: sum.splits)

lemma tidy_transfer: "tidy (snd (transferBinary env user host path))"
  by (simp add: transferBinary_def Let_def tidy_def isStart_def)

lemma tidy_installRemote: "tidy (snd (installRemote env user host))"
proof -
  have "tidy (snd (downloadRelease env goos goarch))" if "fst (downloadRelease env goos goarch) = Inl e" for goos goarch e
    using that by (simp add: downloadRelease_def tidy_def isStart_def split: option.splits if_splits)
  moreover have "tidy (acts @ snd (transferBinary env user host tmp) @ [RemovedTemp tmp])"
    if "downloadRelease env goos goarch = (Inr tmp, acts)" for goos goarch tmp acts
    using that tidy_transfer [of env user host tmp]
    by (auto simp: downloadRelease_def tidy_def isStart_def split: option.splits if_splits)
  ultimately show ?thesis
    using tidy_transfer [of env user host]
    by (auto simp: installRemote_def case_prod_beta split: sum.splits option.splits) (metis prod.collapse snd_conv fst_conv)+
qed

lemma tidy_spawnWithInstall: "tidy (snd (spawnWithInstall env commit user host n))"
proof -
  obtain e acts where i: "installRemote env user host = (e, acts)" by fastforce
  obtain res acts2 where r: "spawnSSH env user host remoteGoetPath n = (res, acts2)" by fastforce
  have "tidy acts" "tidy acts2"
    using tidy_installRemote [of env user host] tidy_spawnSSH [of env user host remoteGoetPath n] i r by simp_all
  with i r tidy_spawnSSH [of env user host "''goet''" n] show ?thesis
    by (auto simp: spawnWithInstall_def tidy_append split: option.splits sum.splits)
qed

lemma spawnSSH_no_transfer: "Transferred args \<notin> set (snd (spawnSSH env user host path n))"
  by (simp add: spawnSSH_def Let_def split: sum.splits)

lemma installRemote_transfers:
  assumes "installRemote env user host = (None, acts)"
  shows "\<exists>pre post. acts = pre @ Transferred (sshArgs user host @ [installCmd]) # post"
  using assms
  by (auto simp: installRemote_def transferBinary_def Let_def split: sum.splits option.splits prod.splits if_splits)
     (metis append_Cons append_Nil)+

lemma spawnSSH_started:
  assumes "fst (spawnSSH env user host path n) = Inr r"
  shows "snd (spawnSSH env user host path n) = [StartedSSH (sessionArgs user host path (sr_SessionID r) n), KilledAndReaped]"
  using assms by (auto simp: spawnSSH_def Let_def split: sum.splits if_splits)

section \<open>A sample host\<close>

definition demoKey :: bytes where "demoKey = replicate 32 7"

definition demoHost :: "(string list \<Rightarrow> string \<Rightarrow> ssh_stdout) \<Rightarrow> (string list \<Rightarrow> string \<times> bool) \<Rightarrow> host_env" where
  "demoHost out run =
     \<lparr>he_random = (\<lambda>n. Inr (replicate n 7)), he_stdinPipe = True, he_stdoutPipe = True, he_start = True, he_stdinWrite = True,
      he_stdout = out, he_run = run, he_GOOS = ''linux'', he_GOARCH = ''amd64'', he_Executable = Some ''/usr/bin/goet'',
      he_Open = (\<lambda>path. True), he_transfer = (\<lambda>args. True), he_Get = (\<lambda>url. Some 200), he_CreateTemp = Some ''/tmp/goet'',
      he_Copy = True\<rparr>"

lemma demo_version: "parseVersionOutput (TrimSpace ''goet 0.4.0 (abc1234)'') = Inr ''abc1234''"
  by code_simp

section \<open>Properties\<close>

text \<open>C29: Bootstrapping leaves nothing behind. Whatever ssh, the remote host and the file system do, when \<open>SpawnSSH\<close> returns, every ssh
  process it started to run a session has been killed and waited for and every temporary file it created removed.\<close>

theorem SpawnSSH_tidy:
  "tidy (snd (SpawnSSH env localCommit destination install n))"
proof -
  obtain user host where d: "parseDestination destination = (user, host)" by fastforce
  obtain res acts where "spawnSSH env user host ''goet'' n = (res, acts)" by fastforce
  with tidy_spawnSSH [of env user host "''goet''" n] tidy_spawnWithInstall [of env localCommit user host n] d show ?thesis
    by (auto simp: SpawnSSH_def split: sum.splits ssh_error.splits)
qed

text \<open>C30: Installing happens when it is needed. A successful \<open>--install\<close> run either found the local commit on the remote and
  transferred nothing, or it transferred the binary to the install path before it started the session there.\<close>

theorem install_when_needed:
  assumes "spawnWithInstall env localCommit user host n = (Inr r, acts)"
  shows "getRemoteVersion env user host = Inr localCommit
      \<and> acts = [StartedSSH (sessionArgs user host ''goet'' (sr_SessionID r) n), KilledAndReaped]
    \<or> getRemoteVersion env user host \<noteq> Inr localCommit
      \<and> (\<exists>pre post. acts = pre @ Transferred (sshArgs user host @ [installCmd]) # post
           @ [StartedSSH (sessionArgs user host remoteGoetPath (sr_SessionID r) n), KilledAndReaped])"
proof (cases "getRemoteVersion env user host = Inr localCommit")
  case True
  with assms spawnSSH_started [of env user host "''goet''" n r] show ?thesis by (simp add: spawnWithInstall_def)
next
  case False
  with assms obtain acts1 acts2 where i: "installRemote env user host = (None, acts1)"
      "spawnSSH env user host remoteGoetPath n = (Inr r, acts2)" "acts = acts1 @ acts2"
    by (auto simp: spawnWithInstall_def split: prod.splits option.splits sum.splits)
  with installRemote_transfers [OF i(1)] spawnSSH_started [of env user host remoteGoetPath n r] False show ?thesis by auto
qed

theorem install_when_needed_witness:
  "\<exists>env r acts. spawnWithInstall env ''abc1234'' [] ''h'' 0 = (Inr r, acts)
     \<and> acts = [StartedSSH (sessionArgs [] ''h'' ''goet'' (sr_SessionID r) 0), KilledAndReaped]"
proof -
  define env where "env = demoHost (\<lambda>args input. StdoutText (printPort 4242)) (\<lambda>args. (''goet 0.4.0 (abc1234)'', True))"
  have v: "getRemoteVersion env [] ''h'' = Inr ''abc1234''"
    using demo_version by (simp add: getRemoteVersion_def sshRun_def env_def demoHost_def)
  obtain r acts where r: "spawnWithInstall env ''abc1234'' [] ''h'' 0 = (Inr r, acts)"
    using v readPort_line [of 4242 "[]"] by (simp add: spawnWithInstall_def spawnSSH_def GeneratePasskey_def env_def demoHost_def Let_def)
  with install_when_needed [OF r] v show ?thesis by blast
qed

text \<open>C31: A second \<open>--install\<close> can fail. If goet was installed by an earlier run at its install path, is current, but is not on the
  remote \<open>PATH\<close>, the version check finds it at the install path while the session is started as plain \<open>goet\<close>: nothing is
  transferred, ssh ends without printing a port, and the run fails as if goet were missing.\<close>

theorem install_path_forgotten:
  assumes "he_random env PasskeySize = Inr key" and "he_stdinPipe env" and "he_stdoutPipe env" and "he_start env" and "he_stdinWrite env"
    and "parseDestination destination = (user, host)"
    and "\<not> snd (he_run env (sshArgs user host @ [''goet --version'']))"
    and "he_run env (sshArgs user host @ [remoteGoetPath @ '' --version'']) = (out, True)"
    and "parseVersionOutput (TrimSpace out) = Inr localCommit"
    and "\<And>sid input. he_stdout env (sessionArgs user host ''goet'' sid n) input = StdoutText []"
  shows "fst (SpawnSSH env localCommit destination True n) = Inl ErrNotInstalled
    \<and> (\<forall>args. Transferred args \<notin> set (snd (SpawnSSH env localCommit destination True n)))"
proof -
  obtain out1 where "he_run env (sshArgs user host @ [''goet --version'']) = (out1, False)"
    using assms(7) by (cases "he_run env (sshArgs user host @ [''goet --version''])") auto
  then have "getRemoteVersion env user host = Inr localCommit"
    using assms(8,9) by (simp add: getRemoteVersion_def sshRun_def)
  then have run: "SpawnSSH env localCommit destination True n = spawnSSH env user host ''goet'' n"
    using assms(6) by (simp add: SpawnSSH_def spawnWithInstall_def)
  have "readPort (StdoutText []) = Inl ErrNotInstalled" by (simp add: readPort_def scanLine_def)
  then have "fst (spawnSSH env user host ''goet'' n) = Inl ErrNotInstalled"
    using assms(1-5,10) by (simp add: spawnSSH_def GeneratePasskey_def Let_def)
  with run spawnSSH_no_transfer show ?thesis by simp
qed

theorem install_path_forgotten_witness:
  "\<exists>env. getRemoteVersion env [] ''h'' = Inr ''abc1234'' \<and> fst (SpawnSSH env ''abc1234'' ''h'' True 0) = Inl ErrNotInstalled"
proof -
  define run where "run = (\<lambda>args :: string list. if last args = ''goet --version'' then ([], False) else (''goet 0.4.0 (abc1234)'', True))"
  define env where "env = demoHost (\<lambda>args input. StdoutText []) run"
  have sel: "he_random env PasskeySize = Inr (replicate PasskeySize 7)" "he_stdinPipe env" "he_stdoutPipe env" "he_start env"
      "he_stdinWrite env" "he_run env = run" "\<And>args input. he_stdout env args input = StdoutText []"
    by (simp_all add: env_def demoHost_def)
  have dest: "parseDestination ''h'' = ([], ''h'')" by (simp add: parseDestination_def)
  have missing: "\<not> snd (run (sshArgs [] ''h'' @ [''goet --version'']))" by (simp add: run_def)
  have found: "run (sshArgs [] ''h'' @ [remoteGoetPath @ '' --version'']) = (''goet 0.4.0 (abc1234)'', True)"
    by (simp add: run_def remoteGoetPath_def)
  have "getRemoteVersion env [] ''h'' = Inr ''abc1234''"
    using demo_version missing found sel(6) by (simp add: getRemoteVersion_def sshRun_def case_prod_beta)
  moreover have "fst (SpawnSSH env ''abc1234'' ''h'' True 0) = Inl ErrNotInstalled"
    using install_path_forgotten [OF sel(1-5) dest _ _ demo_version] sel(6,7) missing found by (metis fst_conv)
  ultimately show ?thesis by blast
qed

end
