(* ===== verification/Flags.thy ===== *)
theory Flags
  imports Go_Strings
begin

text \<open>
  What the commands use of the standard library's \<^verbatim>\<open>flag\<close> package: \<open>FlagSet.Parse\<close> for integer and string flags, and
  \<open>strconv.ParseInt\<close> with base 0, which reads the integer flags (base prefixes and underscores as in Go literals).
\<close>

section \<open>Integers with a base prefix\<close>

definition lower :: "char \<Rightarrow> char" where
  "lower c = (let v = of_char c :: nat in if 65 \<le> v \<and> v \<le> 90 then char_of (v + 32) else c)"

text \<open>A digit in any base up to 36.\<close>

definition anyDigit :: "char \<Rightarrow> nat option" where
  "anyDigit c =
     (let v = of_char c :: nat; w = of_char (lower c) :: nat in
      if 48 \<le> v \<and> v \<le> 57 then Some (v - 48) else if 97 \<le> w \<and> w \<le> 122 then Some (w - 87) else None)"

fun digitsIn :: "nat \<Rightarrow> nat \<Rightarrow> string \<Rightarrow> nat option" where
  "digitsIn base acc [] = Some acc"
| "digitsIn base acc (c # cs) =
     (if c = CHR ''_'' then digitsIn base acc cs
      else case anyDigit c of
        None \<Rightarrow> None
      | Some d \<Rightarrow> if d \<ge> base then None else digitsIn base (base * acc + d) cs)"

text \<open>\<open>underscoreOK\<close>: underscores only between digits, a base prefix counting as a digit.\<close>

datatype seen = AtStart | SawDigit | SawUnderscore | SawOther

fun underscores :: "bool \<Rightarrow> seen \<Rightarrow> string \<Rightarrow> bool" where
  "underscores hex saw [] \<longleftrightarrow> saw \<noteq> SawUnderscore"
| "underscores hex saw (c # cs) \<longleftrightarrow>
     (let v = of_char c :: nat; w = of_char (lower c) :: nat in
      if 48 \<le> v \<and> v \<le> 57 \<or> hex \<and> 97 \<le> w \<and> w \<le> 102 then underscores hex SawDigit cs
      else if c = CHR ''_'' then saw = SawDigit \<and> underscores hex SawUnderscore cs
      else saw \<noteq> SawUnderscore \<and> underscores hex SawOther cs)"

fun basePrefix :: "string \<Rightarrow> nat \<times> string" where
  "basePrefix (z # x # d # ds) =
     (if z \<noteq> CHR ''0'' then (10, z # x # d # ds)
      else if lower x = CHR ''b'' then (2, d # ds)
      else if lower x = CHR ''o'' then (8, d # ds)
      else if lower x = CHR ''x'' then (16, d # ds)
      else (8, x # d # ds))"
| "basePrefix (z # ds) = (if z = CHR ''0'' then (8, ds) else (10, z # ds))"
| "basePrefix [] = (10, [])"

definition underscoreOK :: "string \<Rightarrow> bool" where
  "underscoreOK s =
     (case s of
        z # x # ds \<Rightarrow>
          (if z = CHR ''0'' \<and> lower x \<in> {CHR ''b'', CHR ''o'', CHR ''x''}
           then underscores (lower x = CHR ''x'') SawDigit ds else underscores False AtStart s)
      | _ \<Rightarrow> underscores False AtStart s)"

definition ParseInt :: "string \<Rightarrow> int option" where
  "ParseInt s =
     (let (neg, ds) = (case s of c # cs \<Rightarrow> if c = CHR ''-'' then (True, cs) else if c = CHR ''+'' then (False, cs) else (False, s)
                       | [] \<Rightarrow> (False, []));
          (base, num) = basePrefix ds
      in if ds = [] then None
         else if CHR ''_'' \<in> set num \<and> \<not> underscoreOK ds then None
         else case digitsIn base 0 num of
                None \<Rightarrow> None
              | Some n \<Rightarrow>
                  (let v = (if neg then - int n else int n)
                   in if v > 2 ^ 63 - 1 \<or> v < - (2 ^ 63) then None else Some v))"

section \<open>Flag sets\<close>

datatype flag_value = IntValue int | StringValue string

datatype flag_error = BadSyntax string | NotDefined string | HelpRequested | NeedsArgument string | InvalidValue string string

text \<open>A flag set: the defined flags with their values, which start as the defaults.\<close>

type_synonym flagSet = "string \<rightharpoonup> flag_value"

definition setFlag :: "flag_value \<Rightarrow> string \<Rightarrow> flag_value option" where
  "setFlag old value =
     (case old of IntValue i \<Rightarrow> map_option IntValue (ParseInt value) | StringValue s \<Rightarrow> Some (StringValue value))"

text \<open>\<open>parseOne\<close>: whether a flag was seen, the flag set and the arguments left, or an error.\<close>

definition parseOne :: "flagSet \<Rightarrow> string list \<Rightarrow> flag_error + bool \<times> flagSet \<times> string list" where
  "parseOne fs args =
     (case args of
        [] \<Rightarrow> Inr (False, fs, [])
      | s # rest \<Rightarrow>
          (if length s < 2 \<or> s ! 0 \<noteq> CHR ''-'' then Inr (False, fs, args)
           else if s = ''--'' then Inr (False, fs, rest)
           else
             let text = drop (if s ! 1 = CHR ''-'' then 2 else 1) s in
             if text ! 0 = CHR ''-'' \<or> text ! 0 = CHR ''='' then Inl (BadSyntax s)
             else
               let name = take 1 text @ takeWhile (\<lambda>c. c \<noteq> CHR ''='') (drop 1 text);
                   inline = drop (length name) text
               in case fs name of
                    None \<Rightarrow> Inl (if name = ''help'' \<or> name = ''h'' then HelpRequested else NotDefined name)
                  | Some old \<Rightarrow>
                      (if inline = [] \<and> rest = [] then Inl (NeedsArgument name)
                       else
                         let value = (if inline \<noteq> [] then drop 1 inline else hd rest);
                             left = (if inline \<noteq> [] then rest else drop 1 rest)
                         in case setFlag old value of
                              None \<Rightarrow> Inl (InvalidValue value name)
                            | Some v \<Rightarrow> Inr (True, fs(name \<mapsto> v), left))))"

lemma parseOne_shorter: "parseOne fs args = Inr (True, fs', rest) \<Longrightarrow> length rest < length args"
  by (auto simp: parseOne_def Let_def split: list.splits if_splits option.splits)

function flags_Parse :: "flagSet \<Rightarrow> string list \<Rightarrow> flag_error + flagSet \<times> string list" where
  "flags_Parse fs args =
     (case parseOne fs args of
        Inl e \<Rightarrow> Inl e
      | Inr (True, fs', rest) \<Rightarrow> flags_Parse fs' rest
      | Inr (False, fs', rest) \<Rightarrow> Inr (fs', rest))"
  by pat_completeness auto
termination
  by (relation "measure (\<lambda>(fs, args). length args)") (auto dest: parseOne_shorter)

declare flags_Parse.simps [simp del]

section \<open>Facts\<close>

lemma anyDigit_decimal: "d < 10 \<Longrightarrow> anyDigit (digitChar d) = Some d"
  by (simp add: anyDigit_def digitChar_def Let_def)

lemma digitsIn_decimal:
  "(\<forall>c \<in> set s. \<exists>d < 10. c = digitChar d) \<Longrightarrow> digitsIn 10 acc s = decimal acc s"
proof (induction s arbitrary: acc)
  case (Cons c cs)
  then obtain d where d: "d < 10" "c = digitChar d" by auto
  have "c \<noteq> CHR ''_''" using d by (auto simp: digitChar_def dest!: arg_cong [of _ _ "of_char :: char \<Rightarrow> nat"])
  with d Cons digitVal_digit [OF d(1)] anyDigit_decimal [OF d(1)] show ?case by simp
qed simp

lemma decDigits_first: "0 < n \<Longrightarrow> hd (decDigits n) \<noteq> CHR ''0''"
proof (induction n rule: decDigits.induct)
  case (1 n)
  show ?case
  proof (cases "n < 10")
    case True
    with "1.prems" show ?thesis
      by (auto simp: decDigits.simps [of n] digitChar_def dest!: arg_cong [of _ _ "of_char :: char \<Rightarrow> nat"])
  next
    case False
    with "1.IH" decDigits_nonempty [of "n div 10"] show ?thesis by (simp add: decDigits.simps [of n])
  qed
qed

text \<open>What \<open>Itoa\<close> prints is read back.\<close>

lemma ParseInt_Itoa:
  assumes "0 \<le> i" and "i < 2 ^ 63"
  shows "ParseInt (Itoa i) = Some i"
proof (cases "i = 0")
  case True
  have "Itoa 0 = ''0''" by code_simp
  with True show ?thesis by (simp add: ParseInt_def)
next
  case False
  obtain c cs where c: "decDigits (nat i) = c # cs" using decDigits_nonempty by (cases "decDigits (nat i)") auto
  have digits: "\<forall>c \<in> set (c # cs). \<exists>d < 10. c = digitChar d" using decDigits_digits [of _ "nat i"] c by auto
  then obtain d where d: "d < 10" "c = digitChar d" by auto
  then have "c \<noteq> CHR ''-''" "c \<noteq> CHR ''+''" using digit_visible by auto
  moreover have "c \<noteq> CHR ''0''" using decDigits_first [of "nat i"] c False assms(1) by simp
  then have base: "basePrefix (c # cs) = (10, c # cs)" by (cases cs rule: remdups_adj.cases) simp_all
  moreover have "CHR ''_'' \<notin> set (c # cs)"
    using digits by (auto simp: digitChar_def dest!: arg_cong [of _ _ "of_char :: char \<Rightarrow> nat"])
  moreover have "digitsIn 10 0 (c # cs) = Some (nat i)" using digitsIn_decimal [OF digits] decimal_digits [of "nat i"] c by simp
  ultimately show ?thesis using assms c by (simp add: ParseInt_def Itoa_def Let_def)
qed

text \<open>One flag with its value in the next argument, and the end of the flags.\<close>

lemma flags_Parse_pair:
  assumes "fs (n # name) = Some old" and "n \<noteq> CHR ''-''" and "n \<noteq> CHR ''=''" and "CHR ''='' \<notin> set name" and "setFlag old value = Some v"
  shows "flags_Parse fs ((CHR ''-'' # n # name) # value # rest) = flags_Parse (fs(n # name \<mapsto> v)) rest"
proof -
  have tw: "takeWhile (\<lambda>c. c \<noteq> CHR ''='') name = name" using assms(4) by (auto simp: takeWhile_eq_all_conv)
  have "parseOne fs ((CHR ''-'' # n # name) # value # rest) = Inr (True, fs(n # name \<mapsto> v), rest)"
    using assms(1-3,5) by (simp add: parseOne_def Let_def tw)
  then show ?thesis by (simp add: flags_Parse.simps [of fs "(CHR ''-'' # n # name) # value # rest"])
qed

lemma flags_Parse_end: "flags_Parse fs [] = Inr (fs, [])"
  by (simp add: flags_Parse.simps [of fs "[]"] parseOne_def)

lemma flags_Parse_operand: "length s < 2 \<or> s ! 0 \<noteq> CHR ''-'' \<Longrightarrow> flags_Parse fs (s # rest) = Inr (fs, s # rest)"
  by (simp add: flags_Parse.simps [of fs "s # rest"] parseOne_def)

end
