(* ===== verification/Listener.thy ===== *)
theory Listener
  imports Session Dial "HOL-Library.Multiset"
begin

text \<open>
  The session's listeners: \<open>listenQUIC\<close> and \<open>listenTCP\<close> with \<open>Accept\<close> and \<open>Close\<close>
  (\<^verbatim>\<open>internal/transport/session_listener.go\<close>, \<^verbatim>\<open>tcp_listener.go\<close>) and the dual listener over both
  (\<^verbatim>\<open>dual_listener.go\<close>). Binding a port and the TLS and QUIC handshakes are answers of the system.
\<close>

section \<open>Binding\<close>

datatype listen_error = ErrGenerateCert | ErrListenUDPSocket | ErrQUICListen | ErrTCPListen int

record listener =
  ln_port :: int
  ln_passkey :: bytes
  ln_open :: bool

text \<open>The system's answers: the UDP port (0 asks for any), whether QUIC can use the socket, the TCP port.\<close>

record binding =
  bi_cert :: bool
  bi_udp :: "int \<Rightarrow> int option"
  bi_quic :: bool
  bi_tcp :: "int \<Rightarrow> int option"

text \<open>The second component says whether a UDP socket is left open.\<close>

definition listenQUIC :: "binding \<Rightarrow> int \<Rightarrow> bytes \<Rightarrow> (listen_error + listener) \<times> handle" where
  "listenQUIC bi port passkey =
     (case bi_udp bi port of
        None \<Rightarrow> (Inl ErrListenUDPSocket, Unopened)
      | Some localPort \<Rightarrow>
          (if \<not> bi_quic bi then (Inl ErrQUICListen, ClosedAgain)
           else (Inr \<lparr>ln_port = localPort, ln_passkey = passkey, ln_open = True\<rparr>, Opened)))"

definition listenTCP :: "binding \<Rightarrow> int \<Rightarrow> bytes \<Rightarrow> listen_error + listener" where
  "listenTCP bi port passkey =
     (case bi_tcp bi port of
        None \<Rightarrow> Inl (ErrTCPListen port)
      | Some localPort \<Rightarrow> Inr \<lparr>ln_port = localPort, ln_passkey = passkey, ln_open = True\<rparr>)"

definition Listen :: "binding \<Rightarrow> int \<Rightarrow> bytes \<Rightarrow> (listen_error + listener) \<times> handle" where
  "Listen bi port passkey = (if \<not> bi_cert bi then (Inl ErrGenerateCert, Unopened) else listenQUIC bi port passkey)"

definition Listener_Close :: "listener \<Rightarrow> listener" where
  "Listener_Close l = l\<lparr>ln_open := False\<rparr>"

section \<open>Accepting\<close>

text \<open>
  What \<open>Accept\<close> finds: an error of the listener, the cancelled context, or a connection, given by its exporter
  material and streams (over TCP the one TLS stream comes first). It returns the authenticated connection, or an
  error after closing the connection.
\<close>

datatype arrival = AcceptFails | ContextDone | Arrives "bytes option" "stream option" "stream option"

datatype accept_error = ErrAcceptConnection | ErrAcceptContext | ErrAuthenticate auth_error | AcceptPanic

definition quicListener_Accept :: "listener \<Rightarrow> arrival \<Rightarrow> (accept_error + Conn) \<times> handle" where
  "quicListener_Accept l a =
     (case a of
        Arrives material control data \<Rightarrow>
          (case quicAcceptLoop_turn (ln_passkey l) material control data of
             Delivered c \<Rightarrow> (Inr c, Opened)
           | Refused e \<Rightarrow> (Inl (ErrAuthenticate e), ClosedAgain)
           | Crashed \<Rightarrow> (Inl AcceptPanic, Opened))
      | _ \<Rightarrow> (Inl ErrAcceptConnection, Unopened))"

text \<open>
  The TCP listener accepts in a goroutine of its own; if the context ends first, another goroutine closes
  whatever that accept still returns.
\<close>

definition tcpListener_Accept :: "listener \<Rightarrow> arrival \<Rightarrow> (accept_error + Conn) \<times> handle" where
  "tcpListener_Accept l a =
     (case a of
        AcceptFails \<Rightarrow> (Inl ErrAcceptConnection, Unopened)
      | ContextDone \<Rightarrow> (Inl ErrAcceptContext, Unopened)
      | Arrives material control data \<Rightarrow>
          (case control of
             None \<Rightarrow> (Inl ErrAcceptConnection, Unopened)
           | Some st \<Rightarrow>
               (case tcpAcceptLoop_turn (ln_passkey l) material st of
                  Delivered c \<Rightarrow> (Inr c, Opened)
                | Refused e \<Rightarrow> (Inl (ErrAuthenticate e), ClosedAgain)
                | Crashed \<Rightarrow> (Inl AcceptPanic, Opened))))"

section \<open>The dual listener\<close>

text \<open>
  Both accept loops run in goroutines of their own, each waiting in \<open>Accept\<close>, authenticating an arrival, holding
  a connection for the queue, or gone. \<open>Close\<close> cancels the context, closes both listeners and
  drains the queue. History: the authenticated connections, those \<open>Accept\<close> has returned, those closed unused.
\<close>

datatype transport = OverQUIC | OverTCP

datatype loop = Accepting | Authenticating arrival | Holding Conn | LoopExited

datatype closing = Serving | ContextCancelled | TCPClosed | DrainingQueue | CloseReturned

record dualListener =
  dl_quic :: listener
  dl_tcp :: listener
  dl_port :: int
  dl_connCh :: "Conn list"
  dl_cancelled :: bool
  dl_loop :: "transport \<Rightarrow> loop"
  dl_closing :: closing
  dl_authenticated :: "Conn list"
  dl_accepted :: "Conn list"
  dl_discarded :: "Conn list"

definition ListenDual :: "binding \<Rightarrow> int \<Rightarrow> bytes \<Rightarrow> (listen_error + dualListener) \<times> handle" where
  "ListenDual bi port passkey =
     (if \<not> bi_cert bi then (Inl ErrGenerateCert, Unopened)
      else case listenQUIC bi port passkey of
        (Inl e, h) \<Rightarrow> (Inl e, h)
      | (Inr ql, h) \<Rightarrow>
          (case listenTCP bi (ln_port ql) passkey of
             Inl e \<Rightarrow> (Inl e, ClosedAgain)
           | Inr tcpl \<Rightarrow>
               (Inr \<lparr>dl_quic = ql, dl_tcp = tcpl, dl_port = ln_port ql, dl_connCh = [], dl_cancelled = False,
                     dl_loop = (\<lambda>t. Accepting), dl_closing = Serving, dl_authenticated = [], dl_accepted = [],
                     dl_discarded = []\<rparr>, h)))"

fun acceptOn :: "transport \<Rightarrow> dualListener \<Rightarrow> arrival \<Rightarrow> accept_error + Conn" where
  "acceptOn OverQUIC d a = fst (quicListener_Accept (dl_quic d) a)"
| "acceptOn OverTCP d a = fst (tcpListener_Accept (dl_tcp d) a)"

fun listening_on :: "transport \<Rightarrow> dualListener \<Rightarrow> bool" where
  "listening_on OverQUIC d = ln_open (dl_quic d)"
| "listening_on OverTCP d = ln_open (dl_tcp d)"

definition setLoop :: "transport \<Rightarrow> loop \<Rightarrow> dualListener \<Rightarrow> dualListener" where
  "setLoop t l d = d\<lparr>dl_loop := (dl_loop d)(t := l)\<rparr>"

definition connChCap :: nat where "connChCap = 4"

text \<open>What a loop does with the result of \<open>Accept\<close>; a panic is not a step.\<close>

definition acceptLoop_result :: "transport \<Rightarrow> accept_error + Conn \<Rightarrow> dualListener \<Rightarrow> dualListener" where
  "acceptLoop_result t res d =
     (case res of
        Inl e \<Rightarrow> setLoop t (if dl_cancelled d then LoopExited else Accepting) d
      | Inr c \<Rightarrow> setLoop t (Holding c) (d\<lparr>dl_authenticated := dl_authenticated d @ [c]\<rparr>))"

datatype actor = AcceptLoop transport | Caller

inductive dual_step :: "actor \<Rightarrow> dualListener \<Rightarrow> dualListener \<Rightarrow> bool" where
  arrives: "dl_loop d t = Accepting \<Longrightarrow> listening_on t d \<Longrightarrow>
    dual_step (AcceptLoop t) d (setLoop t (Authenticating (Arrives material control data)) d)"
| fails: "dl_loop d t = Accepting \<Longrightarrow> dual_step (AcceptLoop t) d (acceptLoop_result t (Inl ErrAcceptConnection) d)"
| authenticated: "dl_loop d t = Authenticating a \<Longrightarrow> acceptOn t d a \<noteq> Inl AcceptPanic \<Longrightarrow>
    dual_step (AcceptLoop t) d (acceptLoop_result t (acceptOn t d a) d)"
| queue: "dl_loop d t = Holding c \<Longrightarrow> length (dl_connCh d) < connChCap \<Longrightarrow>
    dual_step (AcceptLoop t) d (setLoop t Accepting (d\<lparr>dl_connCh := dl_connCh d @ [c]\<rparr>))"
| discard: "dl_loop d t = Holding c \<Longrightarrow> dl_cancelled d \<Longrightarrow>
    dual_step (AcceptLoop t) d (setLoop t LoopExited (d\<lparr>dl_discarded := dl_discarded d @ [c]\<rparr>))"
| Accept: "dl_connCh d = c # cs \<Longrightarrow> dual_step Caller d (d\<lparr>dl_connCh := cs, dl_accepted := dl_accepted d @ [c]\<rparr>)"
| Close_cancel: "dl_closing d = Serving \<Longrightarrow> dual_step Caller d (d\<lparr>dl_closing := ContextCancelled, dl_cancelled := True\<rparr>)"
| Close_tcp: "dl_closing d = ContextCancelled \<Longrightarrow>
    dual_step Caller d (d\<lparr>dl_closing := TCPClosed, dl_tcp := Listener_Close (dl_tcp d)\<rparr>)"
| Close_quic: "dl_closing d = TCPClosed \<Longrightarrow>
    dual_step Caller d (d\<lparr>dl_closing := DrainingQueue, dl_quic := Listener_Close (dl_quic d)\<rparr>)"
| Close_drain: "dl_closing d = DrainingQueue \<Longrightarrow> dl_connCh d = c # cs \<Longrightarrow>
    dual_step Caller d (d\<lparr>dl_connCh := cs, dl_discarded := dl_discarded d @ [c]\<rparr>)"
| Close_return: "dl_closing d = DrainingQueue \<Longrightarrow> dl_connCh d = [] \<Longrightarrow> dual_step Caller d (d\<lparr>dl_closing := CloseReturned\<rparr>)"

inductive dual_reach :: "binding \<Rightarrow> int \<Rightarrow> bytes \<Rightarrow> dualListener \<Rightarrow> bool" for bi port passkey where
  start: "fst (ListenDual bi port passkey) = Inr d \<Longrightarrow> dual_reach bi port passkey d"
| step: "dual_reach bi port passkey d \<Longrightarrow> dual_step x d d' \<Longrightarrow> dual_reach bi port passkey d'"

section \<open>Where connections go\<close>

fun heldBy :: "loop \<Rightarrow> Conn list" where
  "heldBy (Holding c) = [c]"
| "heldBy l = []"

text \<open>Authenticated under the listener's passkey: the proof of the delivered connection's arrival.\<close>

definition proven :: "bytes \<Rightarrow> Conn \<Rightarrow> bool" where
  "proven passkey c \<longleftrightarrow> (\<exists>material st. tcpAcceptLoop_turn passkey material st = Delivered c)
     \<or> (\<exists>material control data. quicAcceptLoop_turn passkey material control data = Delivered c)"

definition dual_inv :: "bytes \<Rightarrow> dualListener \<Rightarrow> bool" where
  "dual_inv passkey d \<longleftrightarrow> ln_passkey (dl_quic d) = passkey \<and> ln_passkey (dl_tcp d) = passkey
     \<and> mset (dl_authenticated d) = mset (dl_accepted d) + mset (dl_discarded d) + mset (dl_connCh d)
         + mset (heldBy (dl_loop d OverQUIC)) + mset (heldBy (dl_loop d OverTCP))
     \<and> length (dl_connCh d) \<le> connChCap \<and> (\<forall>c \<in> set (dl_authenticated d). proven passkey c)
     \<and> (dl_closing d \<noteq> Serving \<longleftrightarrow> dl_cancelled d)
     \<and> (dl_closing d \<in> {TCPClosed, DrainingQueue, CloseReturned} \<longrightarrow> \<not> ln_open (dl_tcp d))
     \<and> (dl_closing d \<in> {DrainingQueue, CloseReturned} \<longrightarrow> \<not> ln_open (dl_quic d))"

lemma acceptOn_proven:
  assumes "acceptOn t d a = Inr c" and "ln_passkey (dl_quic d) = passkey" and "ln_passkey (dl_tcp d) = passkey"
  shows "proven passkey c"
  using assms
  by (cases t; cases a)
     (auto simp: proven_def quicListener_Accept_def tcpListener_Accept_def split: accept_outcome.splits option.splits)

lemma dual_step_inv:
  assumes "dual_step x d d'" and "dual_inv passkey d"
  shows "dual_inv passkey d'"
  using assms(1)
proof cases
  case (authenticated t a)
  show ?thesis
  proof (cases "acceptOn t d a")
    case (Inl e)
    with authenticated assms(2) show ?thesis by (cases t) (auto simp: dual_inv_def acceptLoop_result_def setLoop_def)
  next
    case (Inr c)
    with acceptOn_proven [OF Inr] authenticated assms(2) show ?thesis
      by (cases t) (auto simp: dual_inv_def acceptLoop_result_def setLoop_def)
  qed
next
  case (arrives t material control data)
  with assms(2) show ?thesis by (cases t) (auto simp: dual_inv_def setLoop_def)
next
  case (fails t)
  with assms(2) show ?thesis by (cases t) (auto simp: dual_inv_def acceptLoop_result_def setLoop_def)
next
  case (queue t c)
  with assms(2) show ?thesis by (cases t) (auto simp: dual_inv_def setLoop_def)
next
  case (discard t c)
  with assms(2) show ?thesis by (cases t) (auto simp: dual_inv_def setLoop_def)
qed (use assms(2) in \<open>auto simp: dual_inv_def Listener_Close_def\<close>)

lemma ListenDual_inv: "fst (ListenDual bi port passkey) = Inr d \<Longrightarrow> dual_inv passkey d"
  by (auto simp: ListenDual_def listenQUIC_def listenTCP_def dual_inv_def split: if_splits prod.splits sum.splits option.splits)

lemma dual_reach_inv: "dual_reach bi port passkey d \<Longrightarrow> dual_inv passkey d"
  by (induction rule: dual_reach.induct) (auto intro: ListenDual_inv dual_step_inv)

section \<open>Closing\<close>

fun loopRank :: "loop \<Rightarrow> nat" where
  "loopRank LoopExited = 0"
| "loopRank Accepting = 1"
| "loopRank (Holding c) = 2"
| "loopRank (Authenticating a) = 3"

definition dualRank :: "dualListener \<Rightarrow> nat" where
  "dualRank d = loopRank (dl_loop d OverQUIC) + loopRank (dl_loop d OverTCP)"

text \<open>The context is cancelled and both listeners are closed, as they are while and after \<open>Close\<close> drains.\<close>

definition shut :: "dualListener \<Rightarrow> bool" where
  "shut d \<longleftrightarrow> dl_cancelled d \<and> \<not> ln_open (dl_quic d) \<and> \<not> ln_open (dl_tcp d)"

lemma dualRank_set:
  "loopRank l < loopRank (dl_loop d t) \<Longrightarrow> dl_loop d' = dl_loop d \<Longrightarrow> dualRank (setLoop t l d') < dualRank d"
  by (cases t) (simp_all add: dualRank_def setLoop_def)

lemma shut_step:
  assumes "dual_step x d d'" and "shut d"
  shows "shut d' \<and> dualRank d' \<le> dualRank d \<and> (x \<noteq> Caller \<longrightarrow> dualRank d' < dualRank d)"
  using assms(1)
proof cases
  case (arrives t material control data)
  with assms(2) show ?thesis by (cases t) (simp_all add: shut_def)
next
  case (fails t)
  then have "dualRank (setLoop t LoopExited d) < dualRank d" by (intro dualRank_set) simp_all
  with fails assms(2) show ?thesis by (simp add: shut_def acceptLoop_result_def setLoop_def)
next
  case (authenticated t a)
  define l where "l = (case acceptOn t d a of Inl e \<Rightarrow> LoopExited | Inr c \<Rightarrow> Holding c)"
  define d0 where "d0 = (case acceptOn t d a of Inl e \<Rightarrow> d | Inr c \<Rightarrow> d\<lparr>dl_authenticated := dl_authenticated d @ [c]\<rparr>)"
  have "d' = setLoop t l d0"
    using authenticated assms(2) by (simp add: acceptLoop_result_def l_def d0_def shut_def split: sum.splits)
  moreover have "dualRank (setLoop t l d0) < dualRank d"
    using authenticated by (intro dualRank_set) (simp_all add: l_def d0_def split: sum.splits)
  ultimately show ?thesis using assms(2) by (simp add: shut_def setLoop_def d0_def split: sum.splits)
next
  case (queue t c)
  then have "dualRank (setLoop t Accepting (d\<lparr>dl_connCh := dl_connCh d @ [c]\<rparr>)) < dualRank d" by (intro dualRank_set) simp_all
  with queue assms(2) show ?thesis by (simp add: shut_def setLoop_def)
next
  case (discard t c)
  then have "dualRank (setLoop t LoopExited (d\<lparr>dl_discarded := dl_discarded d @ [c]\<rparr>)) < dualRank d" by (intro dualRank_set) simp_all
  with discard assms(2) show ?thesis by (simp add: shut_def setLoop_def)
qed (use assms(2) in \<open>auto simp: shut_def dualRank_def Listener_Close_def\<close>)

lemma shut_progress:
  assumes "shut d" and "dl_loop d t \<noteq> LoopExited" and "\<forall>a. dl_loop d t = Authenticating a \<longrightarrow> acceptOn t d a \<noteq> Inl AcceptPanic"
  shows "\<exists>d'. dual_step (AcceptLoop t) d d'"
proof (cases "dl_loop d t")
  case Accepting
  then show ?thesis using dual_step.fails by blast
next
  case (Authenticating a)
  with assms(3) show ?thesis using dual_step.authenticated by blast
next
  case (Holding c)
  with assms(1) show ?thesis using dual_step.discard unfolding shut_def by blast
qed (use assms(2) in simp)

text \<open>Along a run of a shut listener, the steps of the loops are paid for by the rank.\<close>

lemma shut_run:
  "shut (f 0) \<Longrightarrow> \<forall>i < n. dual_step (x i) (f i) (f (Suc i)) \<Longrightarrow>
     shut (f n) \<and> dualRank (f n) + length (filter (\<lambda>i. x i \<noteq> Caller) [0..<n]) \<le> dualRank (f 0)"
proof (induction n)
  case (Suc n)
  then have "shut (f n)" "dualRank (f n) + length (filter (\<lambda>i. x i \<noteq> Caller) [0..<n]) \<le> dualRank (f 0)" by auto
  with shut_step [of "x n" "f n" "f (Suc n)"] Suc.prems show ?case by auto
qed simp

lemma loopRank_le: "loopRank l \<le> 3"
  by (cases l) simp_all

lemma dualRank_le: "dualRank d \<le> 6"
  using loopRank_le [of "dl_loop d OverQUIC"] loopRank_le [of "dl_loop d OverTCP"] by (simp add: dualRank_def)

section \<open>A sample listener\<close>

definition demoBinding :: binding where
  "demoBinding = \<lparr>bi_cert = True, bi_udp = (\<lambda>port. Some 4242), bi_quic = True, bi_tcp = Some\<rparr>"

definition demoArrival :: arrival where
  "demoArrival = Arrives (Some [2]) (Some (healthyStream (frame (AuthRequest (ComputeAuthToken [1] [2])) @ frame (SequenceHeader 0)))) None"

lemma demo_accept:
  assumes "ln_passkey (dl_tcp d) = [1]"
  shows "\<exists>t. acceptOn OverTCP d demoArrival = Inr (TcpConn t) \<and> \<not> tc_done t"
proof -
  let ?st = "healthyStream (frame (AuthRequest (ComputeAuthToken [1] [2])) @ frame (SequenceHeader 0))"
  obtain st where "tcpListener_authenticate [1] (Some [2]) ?st = (st, Inr (newTCPConn st 0))"
    using tcp_server_run [of ?st "[1]" "[2]" 0 "[]"] by auto
  with assms show ?thesis
    by (simp add: demoArrival_def tcpListener_Accept_def tcpAcceptLoop_turn_def newTCPConn_def)
qed

lemma demo_start:
  "\<exists>d. fst (ListenDual demoBinding 0 [1]) = Inr d \<and> dl_loop d = (\<lambda>t. Accepting) \<and> dl_closing d = Serving \<and> dl_connCh d = []
     \<and> ln_passkey (dl_tcp d) = [1] \<and> ln_open (dl_tcp d) \<and> dl_discarded d = [] \<and> dl_accepted d = []"
  by (simp add: ListenDual_def listenQUIC_def listenTCP_def demoBinding_def)

text \<open>A connection is authenticated over TCP and waits for the queue; then \<open>Close\<close> runs to its end.\<close>

lemma demo_closed:
  "\<exists>d c. dual_reach demoBinding 0 [1] d \<and> dl_loop d OverTCP = Holding c \<and> dl_loop d OverQUIC = Accepting \<and> dl_connCh d = []
     \<and> dl_closing d = CloseReturned \<and> \<not> conn_closed c \<and> dl_discarded d = [] \<and> dl_accepted d = []"
proof -
  obtain d0 where d0: "fst (ListenDual demoBinding 0 [1]) = Inr d0" "dl_loop d0 = (\<lambda>t. Accepting)" "dl_closing d0 = Serving"
      "dl_connCh d0 = []" "ln_passkey (dl_tcp d0) = [1]" "ln_open (dl_tcp d0)" "dl_discarded d0 = []" "dl_accepted d0 = []"
    using demo_start by blast
  define d1 where "d1 = setLoop OverTCP (Authenticating demoArrival) d0"
  have "dual_step (AcceptLoop OverTCP) d0 d1"
    using d0 unfolding d1_def demoArrival_def by (intro dual_step.arrives) simp_all
  then have d1: "dual_reach demoBinding 0 [1] d1" by (rule dual_reach.step [OF dual_reach.start [OF d0(1)]])
  obtain t where t: "acceptOn OverTCP d1 demoArrival = Inr (TcpConn t)" "\<not> tc_done t"
    using demo_accept [of d1] d0(5) by (auto simp: d1_def setLoop_def)
  define d2 where "d2 = acceptLoop_result OverTCP (acceptOn OverTCP d1 demoArrival) d1"
  have "dual_step (AcceptLoop OverTCP) d1 d2"
    unfolding d2_def using t(1) by (intro dual_step.authenticated) (simp_all add: d1_def setLoop_def)
  then have d2: "dual_reach demoBinding 0 [1] d2" by (rule dual_reach.step [OF d1])
  define d3 where "d3 = d2\<lparr>dl_closing := ContextCancelled, dl_cancelled := True\<rparr>"
  define d4 where "d4 = d3\<lparr>dl_closing := TCPClosed, dl_tcp := Listener_Close (dl_tcp d3)\<rparr>"
  define d5 where "d5 = d4\<lparr>dl_closing := DrainingQueue, dl_quic := Listener_Close (dl_quic d4)\<rparr>"
  define d6 where "d6 = d5\<lparr>dl_closing := CloseReturned\<rparr>"
  have s2: "dl_closing d2 = Serving" "dl_connCh d2 = []" "dl_loop d2 OverTCP = Holding (TcpConn t)" "dl_loop d2 OverQUIC = Accepting"
      "dl_discarded d2 = []" "dl_accepted d2 = []"
    using t(1) d0 by (simp_all add: d2_def acceptLoop_result_def setLoop_def d1_def)
  have "dual_step Caller d2 d3" unfolding d3_def using s2(1) by (rule dual_step.Close_cancel)
  moreover have "dual_step Caller d3 d4" unfolding d4_def by (rule dual_step.Close_tcp) (simp add: d3_def)
  moreover have "dual_step Caller d4 d5" unfolding d5_def by (rule dual_step.Close_quic) (simp add: d4_def)
  moreover have "dual_step Caller d5 d6"
    unfolding d6_def by (rule dual_step.Close_return) (simp_all add: d5_def d4_def d3_def s2)
  ultimately have "dual_reach demoBinding 0 [1] d6" using d2 by (blast intro: dual_reach.step)
  moreover have "dl_loop d6 = dl_loop d2" "dl_connCh d6 = []" "dl_closing d6 = CloseReturned" "dl_discarded d6 = []" "dl_accepted d6 = []"
    using s2 by (simp_all add: d6_def d5_def d4_def d3_def)
  ultimately show ?thesis using s2 t(2) by (intro exI [of _ d6] exI [of _ "TcpConn t"]) simp
qed

section \<open>Properties\<close>

text \<open>C20: Every connection is accounted for. In every state of the dual listener, each connection that was ever authenticated
  is in exactly one place: returned by \<open>Accept\<close>, closed unused, in the queue, or held by the accept loop that
  authenticated it. The queue never holds more than 4, and whatever \<open>Accept\<close> returned had proved
  the listener's passkey.\<close>

theorem dual_listener_accounts:
  assumes "dual_reach bi port passkey d"
  shows "mset (dl_authenticated d) = mset (dl_accepted d) + mset (dl_discarded d) + mset (dl_connCh d)
         + mset (heldBy (dl_loop d OverQUIC)) + mset (heldBy (dl_loop d OverTCP))
    \<and> length (dl_connCh d) \<le> connChCap \<and> (\<forall>c \<in> set (dl_accepted d). proven passkey c)"
proof -
  have inv: "dual_inv passkey d" using dual_reach_inv [OF assms] .
  then have account: "mset (dl_authenticated d) = mset (dl_accepted d) + mset (dl_discarded d) + mset (dl_connCh d)
         + mset (heldBy (dl_loop d OverQUIC)) + mset (heldBy (dl_loop d OverTCP))"
    unfolding dual_inv_def by blast
  have "c \<in># mset (dl_authenticated d)" if "c \<in> set (dl_accepted d)" for c unfolding account using that by simp
  then have "\<forall>c \<in> set (dl_accepted d). c \<in> set (dl_authenticated d)" by (simp only: set_mset_mset) blast
  with inv account show ?thesis unfolding dual_inv_def by blast
qed

theorem dual_listener_accounts_witness:
  "\<exists>d. dual_reach demoBinding 0 [1] d \<and> length (dl_authenticated d) = 1 \<and> dl_accepted d = []
     \<and> length (dl_connCh d) \<le> connChCap"
proof -
  obtain d c where d: "dual_reach demoBinding 0 [1] d" "dl_loop d OverTCP = Holding c" "dl_loop d OverQUIC = Accepting"
      "dl_connCh d = []" "dl_discarded d = []" "dl_accepted d = []"
    using demo_closed by blast
  with dual_listener_accounts [OF d(1)] have "mset (dl_authenticated d) = {#c#}" by simp
  then have "length (dl_authenticated d) = 1" using size_mset by fastforce
  with d dual_listener_accounts [OF d(1)] show ?thesis by blast
qed

text \<open>C19: The accept loops end after \<open>Close\<close>. From the moment \<open>Close\<close> has closed both listeners, whatever is interleaved,
  the two loops together make at most 6 more steps; and a loop that is not gone always has a step to make, unless
  reading from its peer panics. So both goroutines return.\<close>

theorem accept_loops_end:
  assumes "dual_reach bi port passkey (f 0)" and "dl_closing (f 0) \<in> {DrainingQueue, CloseReturned}"
    and "\<forall>i < n. dual_step (x i) (f i) (f (Suc i))"
  shows "length (filter (\<lambda>i. x i \<noteq> Caller) [0..<n]) \<le> 6
    \<and> (\<forall>t. dl_loop (f n) t \<noteq> LoopExited
          \<and> (\<forall>a. dl_loop (f n) t = Authenticating a \<longrightarrow> acceptOn t (f n) a \<noteq> Inl AcceptPanic)
        \<longrightarrow> (\<exists>d'. dual_step (AcceptLoop t) (f n) d'))"
proof -
  have "dual_inv passkey (f 0)" using dual_reach_inv [OF assms(1)] .
  with assms(2) have "shut (f 0)" by (auto simp: dual_inv_def shut_def)
  from shut_run [OF this assms(3)] dualRank_le [of "f 0"] shut_progress show ?thesis by fastforce
qed

theorem accept_loops_end_witness:
  "\<exists>d. dual_reach demoBinding 0 [1] d \<and> dl_closing d = CloseReturned \<and> dl_loop d OverTCP \<noteq> LoopExited
     \<and> (\<exists>d'. dual_step (AcceptLoop OverTCP) d d')"
proof -
  obtain d c where d: "dual_reach demoBinding 0 [1] d" "dl_loop d OverTCP = Holding c" "dl_closing d = CloseReturned"
    using demo_closed by blast
  with accept_loops_end [of demoBinding 0 "[1]" "\<lambda>i. d" 0 "\<lambda>i. Caller"] show ?thesis by (intro exI [of _ d]) auto
qed

text \<open>C21: A connection can be left open for good. The loop's select may queue its connection even though the context is
  already cancelled, after \<open>Close\<close> has drained the queue and returned: in some run both loops are gone, \<open>Close\<close>
  has returned, and an open authenticated connection is in the queue, from which nobody will take it, although
  \<open>Close\<close> is meant to drain any queued connections.\<close>

theorem close_can_leak_connection:
  "\<exists>bi port passkey d c. dual_reach bi port passkey d \<and> dl_closing d = CloseReturned \<and> (\<forall>t. dl_loop d t = LoopExited)
     \<and> dl_connCh d = [c] \<and> \<not> conn_closed c \<and> c \<notin> set (dl_discarded d)"
proof -
  obtain d c where d: "dual_reach demoBinding 0 [1] d" "dl_loop d OverTCP = Holding c" "dl_loop d OverQUIC = Accepting"
      "dl_connCh d = []" "dl_closing d = CloseReturned" "\<not> conn_closed c" "dl_discarded d = []"
    using demo_closed by blast
  then have cancelled: "dl_cancelled d" using dual_reach_inv [OF d(1)] by (simp add: dual_inv_def)
  define d1 where "d1 = setLoop OverTCP Accepting (d\<lparr>dl_connCh := [c]\<rparr>)"
  define d2 where "d2 = acceptLoop_result OverTCP (Inl ErrAcceptConnection) d1"
  define d3 where "d3 = acceptLoop_result OverQUIC (Inl ErrAcceptConnection) d2"
  have "dual_step (AcceptLoop OverTCP) d d1"
    using dual_step.queue [of d OverTCP c] d(2,4) by (simp add: d1_def connChCap_def)
  then have "dual_reach demoBinding 0 [1] d1" by (rule dual_reach.step [OF d(1)])
  then have "dual_reach demoBinding 0 [1] d2"
    unfolding d2_def by (rule dual_reach.step) (auto intro!: dual_step.fails simp: d1_def setLoop_def)
  moreover have "dual_step (AcceptLoop OverQUIC) d2 d3"
    unfolding d3_def using d(3) by (intro dual_step.fails) (simp add: d2_def d1_def setLoop_def acceptLoop_result_def)
  ultimately have "dual_reach demoBinding 0 [1] d3" by (rule dual_reach.step)
  moreover have "dl_loop d3 t = LoopExited" for t
    using cancelled by (cases t) (simp_all add: d3_def d2_def d1_def setLoop_def acceptLoop_result_def)
  moreover have "dl_closing d3 = CloseReturned" "dl_connCh d3 = [c]" "dl_discarded d3 = []"
    using d by (simp_all add: d3_def d2_def d1_def setLoop_def acceptLoop_result_def)
  ultimately show ?thesis using d(6)
    by (intro exI [of _ demoBinding] exI [of _ 0] exI [of _ "[1]"] exI [of _ d3] exI [of _ c]) simp
qed

end
