(* ===== verification/Command.thy ===== *)
theory Command
  imports Bootstrap Flags Session_Run Listener
begin

text \<open>
  The program's entry point (\<^verbatim>\<open>cmd/goet/main.go\<close>): global flags and dispatch, the commands with their own flags, and what they
  start. Usage texts and logging are left out; a signal is the cancelled context of the step relations.
\<close>

section \<open>Global flags and dispatch\<close>

record globalFlags =
  gf_version :: bool
  gf_local :: bool
  gf_install :: bool
  gf_tcp :: bool
  gf_profile :: bool
  gf_replaySize :: int
  gf_rest :: "string list"

definition noFlags :: globalFlags where
  "noFlags = \<lparr>gf_version = False, gf_local = False, gf_install = False, gf_tcp = False, gf_profile = False, gf_replaySize = 0, gf_rest = []\<rparr>"

definition dialMode :: "globalFlags \<Rightarrow> int" where
  "dialMode g = (if gf_tcp g then DialTCP else DialQUIC)"

fun parseGlobalFlagsFrom :: "globalFlags \<Rightarrow> string list \<Rightarrow> globalFlags" where
  "parseGlobalFlagsFrom g [] = g"
| "parseGlobalFlagsFrom g (arg # args) =
     (if arg = ''--version'' then parseGlobalFlagsFrom (g\<lparr>gf_version := True\<rparr>) args
      else if arg = ''--local'' then parseGlobalFlagsFrom (g\<lparr>gf_local := True\<rparr>) args
      else if arg = ''--install'' then parseGlobalFlagsFrom (g\<lparr>gf_install := True\<rparr>) args
      else if arg = ''--tcp'' then parseGlobalFlagsFrom (g\<lparr>gf_tcp := True\<rparr>) args
      else if arg = ''--profile'' then parseGlobalFlagsFrom (g\<lparr>gf_profile := True\<rparr>) args
      else if arg = ''--replay-size'' \<and> args \<noteq> []
      then parseGlobalFlagsFrom (g\<lparr>gf_replaySize := fst (Atoi (hd args))\<rparr>) (tl args)
      else if HasPrefix arg ''--replay-size=''
      then parseGlobalFlagsFrom (g\<lparr>gf_replaySize := fst (Atoi (drop (length ''--replay-size='') arg))\<rparr>) args
      else parseGlobalFlagsFrom (g\<lparr>gf_rest := gf_rest g @ [arg]\<rparr>) args)"

definition parseGlobalFlags :: "string list \<Rightarrow> globalFlags" where
  "parseGlobalFlags osArgs = parseGlobalFlagsFrom noFlags (drop 1 osArgs)"

fun findDestination :: "string list \<Rightarrow> string" where
  "findDestination [] = []"
| "findDestination (arg # args) = (if \<not> HasPrefix arg ''-'' then arg else findDestination args)"

datatype command = PrintVersion | RunSession "string list" | RunClient globalFlags | RunSSHClient string globalFlags | Usage

definition goet_main :: "string list \<Rightarrow> command" where
  "goet_main osArgs =
     (let gf = parseGlobalFlags osArgs; rest = gf_rest gf; first = (case rest of [] \<Rightarrow> [] | a # as \<Rightarrow> a) in
      if gf_version gf \<or> first = ''version'' then PrintVersion
      else if filepath_Base (case osArgs of [] \<Rightarrow> [] | a # as \<Rightarrow> a) = ''goet-session'' \<or> first = ''session'' then RunSession rest
      else if gf_local gf then RunClient gf
      else if findDestination rest \<noteq> [] then RunSSHClient (findDestination rest) gf
      else Usage)"

text \<open>What \<open>PrintVersion\<close> prints, and the values when none are set at build time (\<^verbatim>\<open>internal/version\<close>).\<close>

definition version_VERSION :: string where "version_VERSION = ''dev''"

definition version_Commit :: string where "version_Commit = ''dev''"

definition versionLine :: "string \<Rightarrow> string \<Rightarrow> string" where
  "versionLine ver commit = ''goet '' @ ver @ '' ('' @ commit @ '')'' @ [CHR 0x0A]"

section \<open>The commands\<close>

datatype cli_error =
    ErrFlags flag_error | ErrPortRequired | ErrPasskeyRequired | ErrPasskeyFormat | ErrSessionIDRequired | ErrReadPasskey
  | ErrSSH ssh_error | ErrListen listen_error

text \<open>The process's exit status: the \<^verbatim>\<open>flag\<close> package exits with 0 for help and 2 for errors, the commands with 1.\<close>

definition exitStatus :: "cli_error \<Rightarrow> nat" where
  "exitStatus e = (case e of ErrFlags HelpRequested \<Rightarrow> 0 | ErrFlags x \<Rightarrow> 2 | _ \<Rightarrow> 1)"

definition decodePasskey :: "string \<Rightarrow> cli_error + bytes" where
  "decodePasskey s =
     (case hex_DecodeString s of
        None \<Rightarrow> Inl ErrPasskeyFormat
      | Some passkey \<Rightarrow> if length passkey \<noteq> 32 then Inl ErrPasskeyFormat else Inr passkey)"

definition intFlag :: "flagSet \<Rightarrow> string \<Rightarrow> int" where
  "intFlag fs name = (case fs name of Some (IntValue i) \<Rightarrow> i | _ \<Rightarrow> 0)"

definition stringFlag :: "flagSet \<Rightarrow> string \<Rightarrow> string" where
  "stringFlag fs name = (case fs name of Some (StringValue s) \<Rightarrow> s | _ \<Rightarrow> [])"

definition clientFlags :: flagSet where
  "clientFlags = [''p'' \<mapsto> IntValue 0, ''k'' \<mapsto> StringValue []]"

definition runClient :: "globalFlags \<Rightarrow> cli_error + ClientConfig" where
  "runClient gf =
     (case flags_Parse clientFlags (gf_rest gf) of
        Inl e \<Rightarrow> Inl (ErrFlags e)
      | Inr (fs, args) \<Rightarrow>
          (let port = intFlag fs ''p''; passkeyHex = stringFlag fs ''k'' in
           if port = 0 then Inl ErrPortRequired
           else if passkeyHex = [] then Inl ErrPasskeyRequired
           else case decodePasskey passkeyHex of
             Inl e \<Rightarrow> Inl e
           | Inr passkey \<Rightarrow>
               Inr \<lparr>cc_Host = (case args of [] \<Rightarrow> ''127.0.0.1'' | a # as \<Rightarrow> a), cc_Port = port, cc_Passkey = passkey,
                    cc_Profile = gf_profile gf, cc_DialMode = dialMode gf, cc_ReplaySize = gf_replaySize gf\<rparr>))"

definition runSSHClient :: "host_env \<Rightarrow> string \<Rightarrow> string \<Rightarrow> globalFlags \<Rightarrow> (cli_error + ClientConfig) \<times> ssh_action list" where
  "runSSHClient env localCommit destination gf =
     (case SpawnSSH env localCommit destination (gf_install gf) (gf_replaySize gf) of
        (Inl e, acts) \<Rightarrow> (Inl (ErrSSH e), acts)
      | (Inr r, acts) \<Rightarrow>
          (Inr \<lparr>cc_Host = sr_Host r, cc_Port = sr_Port r, cc_Passkey = sr_Passkey r, cc_Profile = gf_profile gf,
                cc_DialMode = dialMode gf, cc_ReplaySize = gf_replaySize gf\<rparr>, acts))"

text \<open>\<open>runClientWithConfig\<close>: a new client on the process's terminal, and the exit status once \<open>Run\<close> has returned.\<close>

definition runClientWithConfig :: "ClientConfig \<Rightarrow> wstream \<Rightarrow> bool \<Rightarrow> string \<Rightarrow> instant \<Rightarrow> client_run" where
  "runClientWithConfig cfg stdout tty envTerm now = Client_start (Client_New cfg stdout tty envTerm) now"

definition clientStatus :: "client_run \<Rightarrow> nat option" where
  "clientStatus k = (case k_phase k of Returned None \<Rightarrow> Some 0 | Returned (Some e) \<Rightarrow> Some 1 | _ \<Rightarrow> None)"

text \<open>
  An \<^verbatim>\<open>*os.File\<close>, the nil pointer or an open file by its name, and an \<^verbatim>\<open>io.Writer\<close> that holds one: \<open>None\<close> is the nil
  interface, \<open>Some NilFile\<close> an interface value that holds a nil pointer and is not nil itself. Writing through a nil file fails.
\<close>

datatype osFile = NilFile | NamedFile string

definition os_Stderr :: osFile where
  "os_Stderr = NamedFile ''/dev/stderr''"

definition File_Write :: "osFile \<Rightarrow> bytes \<Rightarrow> bytes option" where
  "File_Write f bs = (case f of NilFile \<Rightarrow> None | NamedFile name \<Rightarrow> Some bs)"

record sessionStart =
  ss_SessionID :: string
  ss_Port :: int
  ss_Passkey :: bytes
  ss_LogWriter :: "osFile option"
  ss_ReplaySize :: int

text \<open>The passkey is the first line of stdin, which must be complete.\<close>

definition readPasskey :: "string \<Rightarrow> cli_error + bytes" where
  "readPasskey stdin =
     (if CHR 0x0A \<notin> set stdin then Inl ErrReadPasskey
      else decodePasskey (TrimSpace (takeWhile (\<lambda>c. c \<noteq> CHR 0x0A) stdin @ [CHR 0x0A])))"

definition sessionFlags :: flagSet where
  "sessionFlags = [''f'' \<mapsto> StringValue [], ''p'' \<mapsto> IntValue 0, ''replay-size'' \<mapsto> IntValue 0]"

text \<open>\<open>openLog\<close> tells whether the operating system opens the log file.\<close>

definition runSession :: "(string \<Rightarrow> bool) \<Rightarrow> string list \<Rightarrow> string \<Rightarrow> cli_error + sessionStart" where
  "runSession openLog args stdin =
     (case flags_Parse sessionFlags (if args \<noteq> [] \<and> hd args = ''session'' then drop 1 args else args) of
        Inl e \<Rightarrow> Inl (ErrFlags e)
      | Inr (fs, rest) \<Rightarrow>
          (let sessionID = stringFlag fs ''f'' in
           if sessionID = [] then Inl ErrSessionIDRequired
           else case readPasskey stdin of
             Inl e \<Rightarrow> Inl e
           | Inr passkey \<Rightarrow>
               (let logPath = ''/tmp/goet-'' @ sessionID @ ''.log''; logFile = (if openLog logPath then NamedFile logPath else NilFile) in
                Inr \<lparr>ss_SessionID = sessionID, ss_Port = intFlag fs ''p'', ss_Passkey = passkey, ss_LogWriter = Some logFile,
                     ss_ReplaySize = intFlag fs ''replay-size''\<rparr>)))"

text \<open>The writer \<open>New\<close> gives to the session's logger.\<close>

definition New_logWriter :: "sessionStart \<Rightarrow> osFile" where
  "New_logWriter ss = (case ss_LogWriter ss of None \<Rightarrow> os_Stderr | Some w \<Rightarrow> w)"

text \<open>
  \<open>Run\<close> of the session up to its event loop: it listens, then \<open>Ready\<close> is closed and the port printed.
\<close>

definition sessionListen :: "binding \<Rightarrow> sessionStart \<Rightarrow> cli_error + dualListener" where
  "sessionListen bi ss =
     (case fst (ListenDual bi (ss_Port ss) (ss_Passkey ss)) of Inl e \<Rightarrow> Inl (ErrListen e) | Inr l \<Rightarrow> Inr l)"

definition sessionRun :: "sessionStart \<Rightarrow> instant \<Rightarrow> run_state" where
  "sessionRun ss now = Run_start \<lparr>cfg_SessionID = ss_SessionID ss, cfg_ReplaySize = ss_ReplaySize ss\<rparr> now"

definition sessionStatus :: "run_state \<Rightarrow> nat option" where
  "sessionStatus r = (case r_result r of None \<Rightarrow> None | Some None \<Rightarrow> Some 0 | Some (Some e) \<Rightarrow> Some 1)"

definition sessionMain :: "(string \<Rightarrow> bool) \<Rightarrow> binding \<Rightarrow> string list \<Rightarrow> string \<Rightarrow> cli_error + sessionStart \<times> dualListener" where
  "sessionMain openLog bi args stdin =
     (case runSession openLog args stdin of
        Inl e \<Rightarrow> Inl e
      | Inr ss \<Rightarrow> (case sessionListen bi ss of Inl e \<Rightarrow> Inl e | Inr l \<Rightarrow> Inr (ss, l)))"

definition sessionStdout :: "(string \<Rightarrow> bool) \<Rightarrow> binding \<Rightarrow> string list \<Rightarrow> string \<Rightarrow> string" where
  "sessionStdout openLog bi args stdin = (case sessionMain openLog bi args stdin of Inl e \<Rightarrow> [] | Inr (ss, l) \<Rightarrow> printPort (dl_port l))"

section \<open>Arguments that are not global flags\<close>

definition plain :: "string \<Rightarrow> bool" where
  "plain arg \<longleftrightarrow> \<not> HasPrefix arg ''--''"

lemma plain_args:
  "\<forall>a \<in> set args. plain a \<Longrightarrow> parseGlobalFlagsFrom g (args @ rest) = parseGlobalFlagsFrom (g\<lparr>gf_rest := gf_rest g @ args\<rparr>) rest"
proof (induction args arbitrary: g)
  case (Cons a args)
  then have "\<not> HasPrefix a ''--''" by (simp add: plain_def)
  then have "a \<noteq> ''--version'' \<and> a \<noteq> ''--local'' \<and> a \<noteq> ''--install'' \<and> a \<noteq> ''--tcp'' \<and> a \<noteq> ''--profile'' \<and> a \<noteq> ''--replay-size''
      \<and> \<not> HasPrefix a ''--replay-size=''"
    by (auto simp: HasPrefix_def) (cases a rule: remdups_adj.cases; simp)
  with Cons show ?case by simp
qed simp

lemma visible_plain: "a \<noteq> [] \<Longrightarrow> hd a \<noteq> CHR ''-'' \<Longrightarrow> plain a"
  by (cases a) (simp_all add: plain_def HasPrefix_def)

lemma hex_plain: "plain (hex_EncodeToString bs)"
proof (cases bs)
  case (Cons b bs')
  have "hexDigit n \<noteq> CHR ''-''" if "n < 16" for n
    using that by (auto simp: hexDigit_def dest!: arg_cong [of _ _ "of_char :: char \<Rightarrow> nat"])
  moreover have "unat b div 16 < 16" using unsigned_less [of b, where 'a = nat] by simp
  ultimately show ?thesis using Cons by (intro visible_plain) (simp_all add: hex_EncodeToString_def)
qed (simp add: hex_EncodeToString_def plain_def HasPrefix_def)

lemma Itoa_plain:
  assumes "0 \<le> i"
  shows "plain (Itoa i)"
proof -
  obtain c cs where c: "decDigits (nat i) = c # cs" using decDigits_nonempty by (cases "decDigits (nat i)") auto
  then have "c \<noteq> CHR ''-''" using decDigits_digits [of c "nat i"] digit_visible by auto
  with c assms show ?thesis by (intro visible_plain) (simp_all add: Itoa_def)
qed

text \<open>The session's flags.\<close>

lemma session_flags:
  assumes "sid \<noteq> []"
  shows "flags_Parse sessionFlags [''-f'', sid] = Inr (sessionFlags(''f'' \<mapsto> StringValue sid), [])"
    and "0 \<le> n \<Longrightarrow> n < 2 ^ 63 \<Longrightarrow> flags_Parse sessionFlags [''-f'', sid, ''-p'', ''0'', ''-replay-size'', Itoa n] =
      Inr (sessionFlags(''f'' \<mapsto> StringValue sid, ''p'' \<mapsto> IntValue 0, ''replay-size'' \<mapsto> IntValue n), [])"
    and "flags_Parse sessionFlags [''-f'', sid, ''-p'', ''0''] =
      Inr (sessionFlags(''f'' \<mapsto> StringValue sid, ''p'' \<mapsto> IntValue 0), [])"
    and "0 \<le> n \<Longrightarrow> n < 2 ^ 63 \<Longrightarrow> flags_Parse sessionFlags [''-f'', sid, ''-replay-size'', Itoa n] =
      Inr (sessionFlags(''f'' \<mapsto> StringValue sid, ''replay-size'' \<mapsto> IntValue n), [])"
proof -
  have f: "flags_Parse sessionFlags (''-f'' # sid # rest) = flags_Parse (sessionFlags(''f'' \<mapsto> StringValue sid)) rest" for rest
    by (rule flags_Parse_pair [of _ _ "[]" "StringValue []"]) (simp_all add: sessionFlags_def setFlag_def)
  have size: "sessionFlags ''replay-size'' = Some (IntValue 0)" by (simp add: sessionFlags_def)
  have zero: "ParseInt ''0'' = Some 0" by code_simp
  have p: "flags_Parse (sessionFlags(''f'' \<mapsto> v)) (''-p'' # ''0'' # rest) =
      flags_Parse (sessionFlags(''f'' \<mapsto> v, ''p'' \<mapsto> IntValue 0)) rest" for v rest
    by (rule flags_Parse_pair [of _ _ "[]" "IntValue 0"]) (simp_all add: sessionFlags_def setFlag_def zero)
  have r: "flags_Parse fs (''-replay-size'' # Itoa n # rest) = flags_Parse (fs(''replay-size'' \<mapsto> IntValue n)) rest"
    if "fs ''replay-size'' = Some (IntValue 0)" "0 \<le> n" "n < 2 ^ 63" for n rest fs
    by (rule flags_Parse_pair [of _ _ "''eplay-size''" "IntValue 0"]) (use that in \<open>simp_all add: setFlag_def ParseInt_Itoa\<close>)
  show "flags_Parse sessionFlags [''-f'', sid] = Inr (sessionFlags(''f'' \<mapsto> StringValue sid), [])"
    "flags_Parse sessionFlags [''-f'', sid, ''-p'', ''0''] =
      Inr (sessionFlags(''f'' \<mapsto> StringValue sid, ''p'' \<mapsto> IntValue 0), [])"
    by (simp_all add: f p flags_Parse_end)
  show "0 \<le> n \<Longrightarrow> n < 2 ^ 63 \<Longrightarrow> flags_Parse sessionFlags [''-f'', sid, ''-p'', ''0'', ''-replay-size'', Itoa n] =
      Inr (sessionFlags(''f'' \<mapsto> StringValue sid, ''p'' \<mapsto> IntValue 0, ''replay-size'' \<mapsto> IntValue n), [])"
    "0 \<le> n \<Longrightarrow> n < 2 ^ 63 \<Longrightarrow> flags_Parse sessionFlags [''-f'', sid, ''-replay-size'', Itoa n] =
      Inr (sessionFlags(''f'' \<mapsto> StringValue sid, ''replay-size'' \<mapsto> IntValue n), [])"
    using size by (simp_all add: f p r flags_Parse_end)
qed

section \<open>Both ends agree\<close>

lemma readPasskey_line:
  assumes "length passkey = 32"
  shows "readPasskey (hex_EncodeToString passkey @ [CHR 0x0A]) = Inr passkey"
  using takeWhile_line [of "hex_EncodeToString passkey" "[]"] TrimSpace_visible(2) [of "hex_EncodeToString passkey"] hex_visible [of passkey] assms
  by (simp add: readPasskey_def decodePasskey_def hex_round_trip)

text \<open>What \<open>spawnSSH\<close> has the remote shell run, and the session it starts.\<close>

definition sessionArgv :: "string \<Rightarrow> string \<Rightarrow> int \<Rightarrow> string list" where
  "sessionArgv path sid n =
     [path, ''session'', ''-f'', sid, ''-p'', ''0''] @ (if n > 0 \<and> n \<noteq> DefaultBufferSize then [''-replay-size'', Itoa n] else [])"

lemma sessionArgs_argv: "sessionArgs user host path sid n = sshArgs user host @ sessionArgv path sid n"
  by (simp add: sessionArgs_def sessionArgv_def)

lemma dashes: "plain ''-f''" "plain ''-p''" "plain ''0''" "plain ''-replay-size''" "plain ''session''"
  by (simp_all add: plain_def HasPrefix_def)

lemma session_dispatch:
  assumes "\<forall>a \<in> set args. plain a"
  shows "goet_main (path # ''session'' # args) = RunSession (''session'' # args)"
proof -
  have "parseGlobalFlagsFrom noFlags ((''session'' # args) @ []) = parseGlobalFlagsFrom (noFlags\<lparr>gf_rest := gf_rest noFlags @ ''session'' # args\<rparr>) []"
    using assms by (intro plain_args) (auto intro: visible_plain)
  then show ?thesis by (simp add: goet_main_def parseGlobalFlags_def noFlags_def Let_def)
qed

lemma sessionArgv_dispatch:
  assumes "plain sid"
  shows "goet_main (sessionArgv path sid n) = RunSession (drop 1 (sessionArgv path sid n))"
proof (cases "n > 0 \<and> n \<noteq> DefaultBufferSize")
  case True
  then have "plain (Itoa n)" by (intro Itoa_plain) simp
  with True session_dispatch [of "[''-f'', sid, ''-p'', ''0'', ''-replay-size'', Itoa n]" path] dashes assms show ?thesis
    by (simp add: sessionArgv_def)
next
  case False
  with session_dispatch [of "[''-f'', sid, ''-p'', ''0'']" path] dashes assms show ?thesis by (auto simp: sessionArgv_def)
qed

lemma runSession_argv:
  assumes "sid \<noteq> []" and "n < 2 ^ 63" and "readPasskey input = Inr key"
  shows "\<exists>ss. runSession openLog (drop 1 (sessionArgv path sid n)) input = Inr ss \<and> ss_SessionID ss = sid \<and> ss_Port ss = 0 \<and> ss_Passkey ss = key
    \<and> Buffer_New (ss_ReplaySize ss) = Buffer_New n"
proof (cases "n > 0 \<and> n \<noteq> DefaultBufferSize")
  case True
  with session_flags(2) [OF assms(1), of n] assms show ?thesis
    by (simp add: runSession_def sessionArgv_def sessionFlags_def intFlag_def stringFlag_def Let_def)
next
  case False
  then have "Buffer_New 0 = Buffer_New n" by (auto simp: Buffer_New_def)
  with False session_flags(3) [OF assms(1)] assms show ?thesis
    by (auto simp: runSession_def sessionArgv_def sessionFlags_def intFlag_def stringFlag_def Let_def)
qed

lemma version_fields:
  assumes "ver \<noteq> []" and "\<forall>c \<in> set ver. \<not> isSpace c" and "\<forall>c \<in> set commit. \<not> isSpace c"
  shows "Fields (TrimSpace (versionLine ver commit)) = [''goet'', ver, ''('' @ commit @ '')'']"
proof -
  let ?c = "''('' @ commit @ '')''"
  have vis: "\<forall>c \<in> set ''goet''. \<not> isSpace c" "\<forall>c \<in> set ?c. \<not> isSpace c" using assms(3) by (simp_all add: isSpace_def)
  have "TrimSpace (versionLine ver commit) = ''goet'' @ CHR '' '' # ver @ CHR '' '' # ?c"
    using TrimSpace_line [of "''goet '' @ ver @ '' ('' @ commit @ '')''"] by (simp add: versionLine_def isSpace_def)
  then show ?thesis
    using fields_words(1) [OF vis(1)] fields_words(1) [OF assms(2,1)] fields_words(2) [OF vis(2)] by (simp only: Fields_def) simp
qed

section \<open>Properties\<close>

text \<open>C27: The bootstrap hands everything over. Suppose the remote host runs the command that ssh is given, with its
  standard input and output, and the port can be bound. Then the command line that \<open>spawnSSH\<close> builds is dispatched
  to the session command and its flags are parsed without error; the session listens with the passkey and the session
  ID that \<open>spawnSSH\<close> returns to the client, on the port it returns, and its catchup buffer has the size the
  client's has.\<close>

theorem bootstrap_agrees:
  assumes "he_random env PasskeySize = Inr key" and "length key = 32"
    and "he_stdinPipe env" and "he_stdoutPipe env" and "he_start env" and "he_stdinWrite env" and "n < 2 ^ 63"
    and "bi_cert bi" and "bi_udp bi 0 = Some port" and "bi_quic bi" and "bi_tcp bi port = Some port'" and "0 < port" and "port < 65536"
    and "\<And>argv args input. goet_main argv = RunSession args \<Longrightarrow>
      he_stdout env (sshArgs user host @ argv) input = StdoutText (sessionStdout openLog bi args input)"
  shows "\<exists>r ss l. fst (spawnSSH env user host path n) = Inr r \<and> sr_Host r = host
    \<and> sessionMain openLog bi (drop 1 (sessionArgv path (sr_SessionID r) n)) (hex_EncodeToString (sr_Passkey r) @ [CHR 0x0A]) = Inr (ss, l)
    \<and> sr_Port r = dl_port l \<and> sr_Passkey r = ln_passkey (dl_quic l) \<and> sr_Passkey r = ln_passkey (dl_tcp l)
    \<and> sr_SessionID r = ss_SessionID ss \<and> Buffer_New (ss_ReplaySize ss) = Buffer_New n"
proof -
  let ?sid = "hex_EncodeToString (take 4 key)" and ?input = "hex_EncodeToString key @ [CHR 0x0A]"
  let ?args = "drop 1 (sessionArgv path ?sid n)"
  have sid: "?sid \<noteq> []" using assms(2) by (cases key) (simp_all add: hex_EncodeToString_def)
  obtain ss where ss: "runSession openLog ?args ?input = Inr ss" "ss_SessionID ss = ?sid" "ss_Port ss = 0" "ss_Passkey ss = key"
      "Buffer_New (ss_ReplaySize ss) = Buffer_New n"
    using runSession_argv [OF sid assms(7) readPasskey_line [OF assms(2)]] by blast
  obtain l where l: "fst (ListenDual bi 0 key) = Inr l" "dl_port l = port" "ln_passkey (dl_quic l) = key" "ln_passkey (dl_tcp l) = key"
    using assms(8-11) by (simp add: ListenDual_def listenQUIC_def listenTCP_def)
  have main: "sessionMain openLog bi ?args ?input = Inr (ss, l)" using ss l(1) by (simp add: sessionMain_def sessionListen_def)
  then have "he_stdout env (sessionArgs user host path ?sid n) ?input = StdoutText (printPort port @ [])"
    using assms(14) [OF sessionArgv_dispatch [OF hex_plain]] l(2) by (simp add: sessionArgs_argv sessionStdout_def)
  then have "fst (spawnSSH env user host path n) = Inr \<lparr>sr_Host = host, sr_Port = port, sr_Passkey = key, sr_SessionID = ?sid\<rparr>"
    using readPort_line [of port "[]"] assms(1-6,12,13) by (simp add: spawnSSH_def GeneratePasskey_def Let_def)
  moreover have "sessionMain openLog bi (drop 1 (sessionArgv path ?sid n)) ?input = Inr (ss, l)" by (rule main)
  ultimately show ?thesis using ss l
    by (intro exI [of _ "\<lparr>sr_Host = host, sr_Port = port, sr_Passkey = key, sr_SessionID = ?sid\<rparr>"] exI [of _ ss] exI [of _ l] conjI) simp_all
qed

theorem bootstrap_agrees_witness:
  "\<exists>env r. fst (spawnSSH env ''u'' ''h'' ''goet'' 65536) = Inr r \<and> sr_Port r = 4242 \<and> sr_Passkey r = demoKey"
proof -
  define bi where "bi = \<lparr>bi_cert = True, bi_udp = (\<lambda>p. Some 4242), bi_quic = True, bi_tcp = (\<lambda>p. Some p)\<rparr>"
  define env where "env = demoHost (\<lambda>words input. case goet_main (drop (length (sshArgs ''u'' ''h'')) words) of
      RunSession args \<Rightarrow> StdoutText (sessionStdout (\<lambda>f. True) bi args input) | _ \<Rightarrow> StdoutText []) (\<lambda>args. ([], False))"
  have out: "he_stdout env (sshArgs ''u'' ''h'' @ argv) input = StdoutText (sessionStdout (\<lambda>f. True) bi args input)"
    if "goet_main argv = RunSession args" for argv args input
    using that by (simp add: env_def demoHost_def)
  have sel: "he_random env PasskeySize = Inr demoKey" "length demoKey = 32" "he_stdinPipe env" "he_stdoutPipe env" "he_start env"
      "he_stdinWrite env"
    by (simp_all add: env_def demoHost_def demoKey_def PasskeySize_def)
  obtain r ss l where r: "fst (spawnSSH env ''u'' ''h'' ''goet'' 65536) = Inr r" "sr_Port r = dl_port l"
      "sessionMain (\<lambda>f. True) bi (drop 1 (sessionArgv ''goet'' (sr_SessionID r) 65536)) (hex_EncodeToString (sr_Passkey r) @ [CHR 0x0A]) = Inr (ss, l)"
    using bootstrap_agrees [OF sel, of 65536 bi 4242 4242 "''u''" "''h''" "\<lambda>f. True" "''goet''"] out by (auto simp: bi_def)
  moreover have "dl_port l = 4242"
    using r(3) by (auto simp: sessionMain_def sessionListen_def bi_def ListenDual_def listenQUIC_def listenTCP_def split: sum.splits)
  moreover have "sr_Passkey r = demoKey"
    using r(1) sel(1) by (auto simp: spawnSSH_def GeneratePasskey_def Let_def split: sum.splits if_splits)
  ultimately show ?thesis by auto
qed

lemma replay_size_swallowed:
  assumes "plain sid"
  shows "goet_main [path, ''session'', ''-f'', sid, ''--replay-size'', v] = RunSession [''session'', ''-f'', sid]"
proof -
  have "\<forall>a \<in> set [''session'', ''-f'', sid]. plain a" using assms dashes by simp
  from plain_args [OF this, of noFlags "[''--replay-size'', v]"] show ?thesis
    by (simp add: goet_main_def parseGlobalFlags_def noFlags_def Let_def)
qed

text \<open>C32: A session ignores \<open>--replay-size\<close>. The session command has a flag \<open>replay-size\<close>, and the \<^verbatim>\<open>flag\<close> package takes one dash
  or two; but with two dashes it is consumed as a global flag before the command sees it: the session starts with the
  arguments it has without it, whatever its value, so with replay size 0; with one dash the value is used.\<close>

theorem session_replay_size_ignored:
  assumes "sid \<noteq> []" and "plain sid" and "0 \<le> n" and "n < 2 ^ 63" and "readPasskey input = Inr key"
  shows "\<exists>args args'. goet_main [path, ''session'', ''-f'', sid, ''--replay-size'', Itoa n] = RunSession args
    \<and> goet_main [path, ''session'', ''-f'', sid] = RunSession args
    \<and> map_sum id ss_ReplaySize (runSession openLog args input) = Inr 0
    \<and> goet_main [path, ''session'', ''-f'', sid, ''-replay-size'', Itoa n] = RunSession args'
    \<and> map_sum id ss_ReplaySize (runSession openLog args' input) = Inr n"
proof -
  have "goet_main [path, ''session'', ''-f'', sid] = RunSession [''session'', ''-f'', sid]"
    "goet_main [path, ''session'', ''-f'', sid, ''-replay-size'', Itoa n] = RunSession [''session'', ''-f'', sid, ''-replay-size'', Itoa n]"
    using assms(2) Itoa_plain [OF assms(3)] dashes by (simp_all add: session_dispatch)
  moreover have "map_sum id ss_ReplaySize (runSession openLog [''session'', ''-f'', sid] input) = Inr 0"
    "map_sum id ss_ReplaySize (runSession openLog [''session'', ''-f'', sid, ''-replay-size'', Itoa n] input) = Inr n"
    using session_flags(1,4) [OF assms(1)] assms(1,3-5)
    by (simp_all add: runSession_def sessionFlags_def intFlag_def stringFlag_def Let_def)
  ultimately show ?thesis using replay_size_swallowed [OF assms(2)] by blast
qed

theorem session_replay_size_ignored_witness:
  "\<exists>args. goet_main [''goet'', ''session'', ''-f'', ''s1'', ''--replay-size'', Itoa 65536] = RunSession args
     \<and> map_sum id ss_ReplaySize (runSession (\<lambda>f. True) args (hex_EncodeToString demoKey @ [CHR 0x0A])) = Inr 0"
  using session_replay_size_ignored [of "''s1''" 65536 "hex_EncodeToString demoKey @ [CHR 0x0A]" demoKey "''goet''" "\<lambda>f. True"]
    readPasskey_line [of demoKey]
  by (auto simp: plain_def HasPrefix_def demoKey_def)

text \<open>C33: Without a log file a session's log is lost. When the log file cannot be opened, the session gets an interface value that
  holds a nil file; that is not the nil interface for which \<open>New\<close> falls back to stderr, so its log lines go to the nil file, where
  every write fails. With an open file they go there.\<close>

theorem session_log_lost:
  assumes "runSession openLog args input = Inr ss"
  shows "New_logWriter ss \<noteq> os_Stderr \<and> (File_Write (New_logWriter ss) line = None \<longleftrightarrow> \<not> openLog (''/tmp/goet-'' @ ss_SessionID ss @ ''.log''))"
  using assms
  by (auto simp: runSession_def New_logWriter_def os_Stderr_def File_Write_def Let_def split: sum.splits if_splits)

theorem session_log_lost_witness:
  "\<exists>ss. runSession (\<lambda>f. False) [''session'', ''-f'', ''s1''] (hex_EncodeToString demoKey @ [CHR 0x0A]) = Inr ss
    \<and> File_Write (New_logWriter ss) [1] = None"
proof -
  obtain ss where ss: "runSession (\<lambda>f. False) [''session'', ''-f'', ''s1''] (hex_EncodeToString demoKey @ [CHR 0x0A]) = Inr ss"
    using session_flags(1) [of "''s1''"] readPasskey_line [of demoKey]
    by (auto simp: runSession_def sessionFlags_def stringFlag_def demoKey_def Let_def)
  with session_log_lost [OF ss, of "[1]"] show ?thesis by simp
qed

text \<open>C28: The version check reads what the version command prints. \<open>--version\<close> is dispatched before anything else; if the remote goet answers it
  with its version and commit, \<open>getRemoteVersion\<close> finds that commit, so a client of the same commit starts the session without installing.\<close>

theorem version_round_trip:
  assumes "ver \<noteq> []" and "\<forall>c \<in> set ver. \<not> isSpace c" and "\<forall>c \<in> set commit. \<not> isSpace c" and "set commit \<inter> set ''()'' = {}"
    and "he_run env (sshArgs user host @ [''goet --version'']) = (versionLine ver commit, True)"
  shows "goet_main [path, ''--version''] = PrintVersion \<and> getRemoteVersion env user host = Inr commit \<and> spawnWithInstall env commit user host n = spawnSSH env user host ''goet'' n"
proof -
  have "goet_main [path, ''--version''] = PrintVersion" by (simp add: goet_main_def parseGlobalFlags_def noFlags_def Let_def)
  moreover have "sshRun env user host ''goet --version'' = Inr (TrimSpace (versionLine ver commit))" using assms(5) by (simp add: sshRun_def)
  moreover have "TrimChars (''('' @ commit @ '')'') ''()'' = commit"
    using TrimChars_wrapped [of "CHR ''(''" "''()''" "CHR '')''" commit] assms(4) by simp
  ultimately have "getRemoteVersion env user host = Inr commit \<and> goet_main [path, ''--version''] = PrintVersion"
    using version_fields [OF assms(1-3)] by (simp add: getRemoteVersion_def parseVersionOutput_def)
  then show ?thesis by (simp add: spawnWithInstall_def)
qed

theorem version_round_trip_witness:
  "getRemoteVersion (demoHost (\<lambda>args input. StdoutSilent) (\<lambda>args. (versionLine ''0.4.0'' version_Commit, True))) [] ''h'' = Inr ''dev''"
  using version_round_trip [of "''0.4.0''" version_Commit "demoHost (\<lambda>args input. StdoutSilent) (\<lambda>args. (versionLine ''0.4.0'' version_Commit, True))" "[]" "''h''"]
  by (simp add: version_Commit_def isSpace_def demoHost_def)

end
