(* ===== verification/Float64.thy ===== *)
theory Float64
  imports Go_Strings "HOL-Library.Log_Nat"
begin

text \<open>
  The \<^verbatim>\<open>float64\<close> arithmetic the program does and its printing with one decimal. A finite \<^verbatim>\<open>float64\<close> is the rational it
  stands for; an operation gives the exact result rounded to 53 significant bits, to nearest, ties to even. The
  values that occur are in the normal range, so neither overflow nor subnormal numbers arise.
\<close>

section \<open>Rounding\<close>

definition round_even :: "rat \<Rightarrow> int" where
  "round_even x =
     (let f = \<lfloor>x\<rfloor>; r = x - of_int f in
      if r < 1 / 2 then f else if r > 1 / 2 then f + 1 else if even f then f else f + 1)"

text \<open>The binary exponent: the largest \<open>e\<close> with \<open>2\<^sup>e\<close> at most the absolute value.\<close>

definition exponent2 :: "rat \<Rightarrow> int" where
  "exponent2 x =
     (case quotient_of \<bar>x\<bar> of (n, d) \<Rightarrow>
        (let k = bitlen n - bitlen d in if 2 powi k * of_int d \<le> (of_int n :: rat) then k else k - 1))"

definition float64 :: "rat \<Rightarrow> rat" where
  "float64 x = (if x = 0 then 0 else let e = exponent2 x - 52 in of_int (round_even (x / 2 powi e)) * 2 powi e)"

definition float_div :: "rat \<Rightarrow> rat \<Rightarrow> rat" where
  "float_div a b = float64 (a / b)"

definition float_add :: "rat \<Rightarrow> rat \<Rightarrow> rat" where
  "float_add a b = float64 (a + b)"

section \<open>Printing\<close>

text \<open>A number of tenths, and the format \<^verbatim>\<open>%.1f\<close>, which rounds the exact value, ties to even.\<close>

definition tenths :: "nat \<Rightarrow> string" where
  "tenths q = decDigits (q div 10) @ ''.'' @ [digitChar (q mod 10)]"

definition fmt_f1 :: "rat \<Rightarrow> string" where
  "fmt_f1 x = (if x < 0 then ''-'' else []) @ tenths (nat (round_even (10 * \<bar>x\<bar>)))"

section \<open>Facts\<close>

lemma round_even_error: "\<bar>of_int (round_even x) - x\<bar> \<le> 1 / 2"
proof -
  define f where "f = \<lfloor>x\<rfloor>"
  have "of_int f \<le> x" "x < of_int f + 1" unfolding f_def using floor_correct [of x] by simp_all
  then show ?thesis by (auto simp: round_even_def Let_def abs_if simp flip: f_def)
qed

lemma round_even_int: "round_even (of_int i) = i"
  by (simp add: round_even_def Let_def)

lemma round_even_nonneg:
  assumes "0 \<le> x"
  shows "0 \<le> round_even x"
proof -
  have "0 \<le> \<lfloor>x\<rfloor>" using assms by simp
  then show ?thesis by (simp add: round_even_def Let_def)
qed

lemma exponent2_le:
  assumes "x \<noteq> 0"
  shows "2 powi exponent2 x \<le> \<bar>x\<bar>"
proof -
  obtain n d where q: "quotient_of \<bar>x\<bar> = (n, d)" by fastforce
  then have x: "\<bar>x\<bar> = of_int n / of_int d" and d: "0 < d" using quotient_of_div quotient_of_denom_pos by blast+
  have "0 < (of_int n / of_int d :: rat)" using assms by (simp flip: x)
  with d have n: "0 < n" by (simp add: zero_less_divide_iff)
  let ?k = "bitlen n - bitlen d"
  show ?thesis
  proof (cases "2 powi ?k * of_int d \<le> (of_int n :: rat)")
    case True
    then show ?thesis using q x d by (simp add: exponent2_def pos_le_divide_eq)
  next
    case False
    have pos: "1 \<le> bitlen n" "0 \<le> bitlen d" using n bitlen_eq_zero_iff [of n] bitlen_nonneg [of n] bitlen_nonneg [of d] by linarith+
    have "2 powi (bitlen n - 1) = (of_int (2 ^ nat (bitlen n - 1)) :: rat)" using pos by (simp add: power_int_def)
    also have "\<dots> \<le> of_int n" using bitlen_bounds [OF n] by (intro of_int_le_iff [THEN iffD2]) simp
    finally have a: "2 powi (bitlen n - 1) \<le> (of_int n :: rat)" .
    have "(of_int d :: rat) \<le> of_int (2 ^ nat (bitlen d))" using bitlen_bounds [OF d] by (intro of_int_le_iff [THEN iffD2]) simp
    also have "\<dots> = 2 powi bitlen d" using pos by (simp add: power_int_def)
    finally have "2 powi (?k - 1) * of_int d \<le> 2 powi (?k - 1) * (2 powi bitlen d :: rat)" by (intro mult_left_mono) simp_all
    also have "\<dots> = 2 powi (bitlen n - 1)" by (simp flip: power_int_add)
    also note a
    finally show ?thesis using False q x d by (simp add: exponent2_def pos_le_divide_eq)
  qed
qed

text \<open>Rounding moves a value by at most one part in \<open>2\<^sup>5\<^sup>3\<close>, and keeps what 53 bits can hold.\<close>

lemma float64_error: "\<bar>float64 x - x\<bar> \<le> \<bar>x\<bar> / 2 ^ 53"
proof (cases "x = 0")
  case False
  let ?u = "2 powi (exponent2 x - 52) :: rat"
  have u: "0 < ?u" by simp
  have "float64 x - x = (of_int (round_even (x / ?u)) - x / ?u) * ?u" using False u by (simp add: float64_def Let_def algebra_simps)
  then have "\<bar>float64 x - x\<bar> = \<bar>of_int (round_even (x / ?u)) - x / ?u\<bar> * ?u" using u by (simp add: abs_mult)
  also have "\<dots> \<le> 1 / 2 * ?u" using round_even_error u by (intro mult_right_mono) simp_all
  also have "\<dots> = 2 powi exponent2 x / 2 ^ 53" by (simp add: power_int_diff)
  also have "\<dots> \<le> \<bar>x\<bar> / 2 ^ 53" using exponent2_le [OF False] by (intro divide_right_mono) simp_all
  finally show ?thesis .
qed (simp add: float64_def)

lemma float64_dyadic:
  assumes "\<bar>i\<bar> < 2 ^ 53"
  shows "float64 (of_int i / 2 ^ k) = of_int i / 2 ^ k"
proof (cases "i = 0")
  case False
  let ?x = "of_int i / 2 ^ k" and ?e = "exponent2 (of_int i / 2 ^ k)"
  have "2 powi ?e * 2 powi int k \<le> (of_int \<bar>i\<bar> :: rat)" using exponent2_le [of ?x] False by (simp add: pos_le_divide_eq)
  also have "\<dots> < of_int (2 ^ 53)" using assms by (simp only: of_int_less_iff)
  finally have "2 powi (?e + int k) < (2 powi 53 :: rat)" by (simp add: power_int_add)
  then have e: "?e + int k \<le> 52" using power_int_increasing [of 53 "?e + int k" "2 :: rat"] by (cases "53 \<le> ?e + int k") simp_all
  define m where "m = nat (52 - ?e - int k)"
  have "?e - 52 = - int m - int k" using e by (simp add: m_def)
  then have u: "2 powi (?e - 52) = inverse (2 ^ m * 2 ^ k :: rat)" by (simp add: power_int_diff power_int_minus divide_inverse)
  have "(of_int i :: rat) / 2 ^ k / inverse (2 ^ m * 2 ^ k) = of_int (i * 2 ^ m)" by (simp add: divide_inverse)
  then have "float64 ?x = of_int (i * 2 ^ m) * inverse (2 ^ m * 2 ^ k)"
    using False u round_even_int [of "i * 2 ^ m"] by (simp add: float64_def Let_def del: of_int_mult)
  also have "\<dots> = ?x" by (simp add: divide_inverse)
  finally show ?thesis .
qed (simp add: float64_def)

lemma float64_int: "\<bar>i\<bar> < 2 ^ 53 \<Longrightarrow> float64 (of_int i) = of_int i"
  using float64_dyadic [of i 0] by simp

lemma float64_pos: "0 < x \<Longrightarrow> 0 < float64 x"
  using float64_error [of x] by (simp add: abs_if split: if_splits)

lemma fmt_f1_near:
  assumes "0 \<le> y"
  obtains q where "fmt_f1 y = tenths q" and "\<bar>of_nat q - 10 * y\<bar> \<le> 1 / 2"
proof
  show "fmt_f1 y = tenths (nat (round_even (10 * y)))" using assms by (simp add: fmt_f1_def)
  show "\<bar>of_nat (nat (round_even (10 * y))) - 10 * y\<bar> \<le> 1 / 2"
    using round_even_error [of "10 * y"] round_even_nonneg [of "10 * y"] assms by simp
qed

end
