(* ===== verification/Profile.thy ===== *)
theory Profile
  imports Client Float64
begin

text \<open>
  The output of \<^verbatim>\<open>--profile\<close>: \<^verbatim>\<open>internal/client/profile.go\<close>. The functions here give the text of the notices
  \<open>ProfileTick\<close> and \<open>ProfileSummary\<close> of the client and the JSON record written to a file. What \<open>ConnectionStats\<close>
  answers comes from the QUIC library, the clock readings, the local time zone and whether a file can be written from the
  operating system: they are arguments. Durations are in nanoseconds. The text \<^verbatim>\<open>encoding/json\<close> makes of the record is left out.
\<close>

section \<open>Numbers\<close>

definition Millisecond :: int where "Millisecond = 1000000"

definition Second :: int where "Second = 1000000000"

definition msFloat :: "int \<Rightarrow> rat" where
  "msFloat d = float_div (float64 (of_int d)) (float64 (of_int Millisecond))"

definition formatBytes :: "u64 \<Rightarrow> string" where
  "formatBytes b =
     (let x = float64 (of_int (uint b)) in
      if uint b \<ge> 2 ^ 30 then fmt_f1 (float_div x (2 ^ 30)) @ ''GB''
      else if uint b \<ge> 2 ^ 20 then fmt_f1 (float_div x (2 ^ 20)) @ ''MB''
      else if uint b \<ge> 2 ^ 10 then fmt_f1 (float_div x (2 ^ 10)) @ ''KB''
      else Itoa (uint b) @ ''B'')"

definition formatDuration :: "int \<Rightarrow> string" where
  "formatDuration d =
     (if d = 0 then ''0ms'' else fmt_f1 (float_div (float64 (of_int d)) (float64 (of_int Millisecond))) @ ''ms'')"

section \<open>Durations and dates of the standard library\<close>

text \<open>\<^verbatim>\<open>Duration.Round\<close>: to a multiple of \<open>m\<close>, halves away from zero, saturating at the bounds of an \<^verbatim>\<open>int64\<close>.\<close>

definition Duration_Round :: "int \<Rightarrow> int \<Rightarrow> int" where
  "Duration_Round d m =
     (if m \<le> 0 then d
      else let r = \<bar>d\<bar> mod m in
        if d < 0 then (if 2 * r < m then d + r else max (d - m + r) (- (2 ^ 63)))
        else (if 2 * r < m then d - r else min (d + m - r) (2 ^ 63 - 1)))"

text \<open>\<^verbatim>\<open>Duration.String\<close>: hours, minutes and seconds, the fraction without trailing zeros; below a second, smaller units.\<close>

definition pad0 :: "nat \<Rightarrow> string \<Rightarrow> string" where
  "pad0 n s = replicate (n - length s) CHR ''0'' @ s"

definition withFrac :: "nat \<Rightarrow> nat \<Rightarrow> nat \<Rightarrow> string" where
  "withFrac whole rest prec =
     (let ds = rev (dropWhile (\<lambda>c. c = CHR ''0'') (rev (pad0 prec (decDigits rest)))) in
      decDigits whole @ (if rest = 0 then [] else ''.'' @ ds))"

definition Duration_String :: "int \<Rightarrow> string" where
  "Duration_String d =
     (let u = nat \<bar>d\<bar>; secs = u div 10 ^ 9; mins = secs div 60 in
      if u = 0 then ''0s''
      else (if d < 0 then ''-'' else []) @
        (if u < 10 ^ 3 then decDigits u @ ''ns''
         else if u < 10 ^ 6 then withFrac (u div 10 ^ 3) (u mod 10 ^ 3) 3 @ [CHR 0xC2, CHR 0xB5, CHR ''s'']
         else if u < 10 ^ 9 then withFrac (u div 10 ^ 6) (u mod 10 ^ 6) 6 @ ''ms''
         else (if mins div 60 > 0 then decDigits (mins div 60) @ ''h'' else [])
            @ (if mins > 0 then decDigits (mins mod 60) @ ''m'' else [])
            @ withFrac (secs mod 60) (u mod 10 ^ 9) 9 @ ''s''))"

definition Duration_Seconds :: "int \<Rightarrow> rat" where
  "Duration_Seconds d =
     float_add (float64 (of_int (sgn d * (\<bar>d\<bar> div Second)))) (float_div (float64 (of_int (sgn d * (\<bar>d\<bar> mod Second)))) (float64 (of_int Second)))"

text \<open>Calendar dates: years, then months, counted off from the days since 1 January 1970.\<close>

definition leap :: "nat \<Rightarrow> bool" where
  "leap y \<longleftrightarrow> y mod 4 = 0 \<and> (y mod 100 \<noteq> 0 \<or> y mod 400 = 0)"

definition yearDays :: "nat \<Rightarrow> nat" where
  "yearDays y = (if leap y then 366 else 365)"

definition monthDays :: "nat \<Rightarrow> nat list" where
  "monthDays y = [31, if leap y then 29 else 28, 31, 30, 31, 30, 31, 31, 30, 31, 30, 31]"

function yearOf :: "nat \<Rightarrow> nat \<Rightarrow> nat \<times> nat" where
  "yearOf y n = (if n < yearDays y then (y, n) else yearOf (y + 1) (n - yearDays y))"
  by pat_completeness auto
termination by (relation "measure snd") (auto simp: yearDays_def split: if_splits)

declare yearOf.simps [simp del]

fun monthOf :: "nat \<Rightarrow> nat list \<Rightarrow> nat \<Rightarrow> nat \<times> nat" where
  "monthOf m [] n = (m, n + 1)"
| "monthOf m (k # ks) n = (if n < k then (m, n + 1) else monthOf (m + 1) ks (n - k))"

definition civil :: "nat \<Rightarrow> nat \<times> nat \<times> nat" where
  "civil days = (case yearOf 1970 days of (y, n) \<Rightarrow> (y, monthOf 1 (monthDays y) n))"

text \<open>\<^verbatim>\<open>Time.Format\<close> with the layouts \<^verbatim>\<open>time.RFC3339\<close> (in UTC) and \<^verbatim>\<open>20060102-150405\<close>, of the Unix time in seconds.\<close>

definition two :: "nat \<Rightarrow> string" where
  "two n = pad0 2 (decDigits n)"

definition formatRFC3339 :: "nat \<Rightarrow> string" where
  "formatRFC3339 t =
     (case civil (t div 86400) of (y, m, d) \<Rightarrow>
        (let s = t mod 86400 in
         pad0 4 (decDigits y) @ ''-'' @ two m @ ''-'' @ two d @ ''T'' @ two (s div 3600) @ '':'' @ two (s div 60 mod 60) @ '':'' @ two (s mod 60) @ ''Z''))"

definition formatStamp :: "nat \<Rightarrow> string" where
  "formatStamp t =
     (case civil (t div 86400) of (y, m, d) \<Rightarrow>
        (let s = t mod 86400 in
         pad0 4 (decDigits y) @ two m @ two d @ ''-'' @ two (s div 3600) @ two (s div 60 mod 60) @ two (s mod 60)))"

section \<open>The profile\<close>

record ConnectionStats =
  cs_MinRTT :: int
  cs_LatestRTT :: int
  cs_SmoothedRTT :: int
  cs_MeanDeviation :: int
  cs_BytesSent :: u64
  cs_PacketsSent :: u64
  cs_BytesReceived :: u64
  cs_PacketsReceived :: u64
  cs_PacketsLost :: u64

text \<open>\<open>ProfileableConn\<close>: only QUIC connections have statistics. \<open>stats\<close> is what the QUIC library answers at the time of the call.\<close>

fun Conn_ConnectionStats :: "(quicConn \<Rightarrow> ConnectionStats) \<Rightarrow> Conn \<Rightarrow> ConnectionStats option" where
  "Conn_ConnectionStats stats (QuicConn c) = Some (stats c)"
| "Conn_ConnectionStats stats (TcpConn c) = None"

definition newline :: string where "newline = [CHR 0x0A]"

definition logProfile :: "(quicConn \<Rightarrow> ConnectionStats) \<Rightarrow> Conn \<Rightarrow> string" where
  "logProfile stats conn =
     (case Conn_ConnectionStats stats conn of
        None \<Rightarrow> ''[profile] transport-level stats not available for this connection type'' @ newline
      | Some st \<Rightarrow>
          ''[profile] rtt='' @ formatDuration (cs_LatestRTT st) @ '' (min='' @ formatDuration (cs_MinRTT st) @ '' smooth='' @ formatDuration (cs_SmoothedRTT st)
          @ '' jitter='' @ formatDuration (cs_MeanDeviation st) @ '') loss='' @ Itoa (uint (cs_PacketsLost st)) @ ''/''
          @ Itoa (uint (cs_PacketsSent st)) @ ''pkts'' @ newline)"

record profileRTT =
  MinMs :: rat
  SmoothMs :: rat
  LatestMs :: rat
  JitterMs :: rat

record profileTraffic =
  BytesSent :: u64
  BytesRecv :: u64
  PktsSent :: u64
  PktsRecv :: u64
  PktsLost :: u64

record profileJSON =
  Timestamp :: string
  pj_Commit :: string
  pj_Host :: string
  DurationS :: rat
  RTT :: profileRTT
  Traffic :: profileTraffic

text \<open>
  A reading: the statistics and the time (Unix, in nanoseconds) at some moment. \<open>zone\<close> is the local time's offset in seconds,
  \<open>writable\<close> whether a file of that name can be written; the result is the file, if one is written, and the text on stderr.
\<close>

record reading =
  rd_stats :: "quicConn \<Rightarrow> ConnectionStats"
  rd_now :: nat

record machine =
  mc_commit :: string
  mc_zone :: int
  mc_writable :: "string \<Rightarrow> bool"

definition profileOf :: "machine \<Rightarrow> Client \<Rightarrow> int \<Rightarrow> ConnectionStats \<Rightarrow> nat \<Rightarrow> profileJSON" where
  "profileOf mc c start st now =
     \<lparr>Timestamp = formatRFC3339 (now div 10 ^ 9), pj_Commit = mc_commit mc, pj_Host = cc_Host (c_cfg c),
      DurationS = Duration_Seconds (int now - start),
      RTT = \<lparr>MinMs = msFloat (cs_MinRTT st), SmoothMs = msFloat (cs_SmoothedRTT st), LatestMs = msFloat (cs_LatestRTT st),
             JitterMs = msFloat (cs_MeanDeviation st)\<rparr>,
      Traffic = \<lparr>BytesSent = cs_BytesSent st, BytesRecv = cs_BytesReceived st, PktsSent = cs_PacketsSent st,
                 PktsRecv = cs_PacketsReceived st, PktsLost = cs_PacketsLost st\<rparr>\<rparr>"

definition writeProfileJSON :: "machine \<Rightarrow> Client \<Rightarrow> int \<Rightarrow> reading \<Rightarrow> Conn \<Rightarrow> (string \<times> profileJSON) option \<times> string" where
  "writeProfileJSON mc c start rd conn =
     (case Conn_ConnectionStats (rd_stats rd) conn of
        None \<Rightarrow> (None, [])
      | Some st \<Rightarrow>
          (let now = rd_now rd;
               filename = ''/tmp/goet-profile-'' @ formatStamp (nat (int (now div 10 ^ 9) + mc_zone mc)) @ ''.json'' in
           if mc_writable mc filename
           then (Some (filename, profileOf mc c start st now), ''[profile] wrote '' @ filename @ newline)
           else (None, [])))"

text \<open>\<open>logProfileSummary\<close> reads the statistics and the clock, and \<open>writeProfileJSON\<close> reads them again.\<close>

definition logProfileSummary ::
    "machine \<Rightarrow> Client \<Rightarrow> int \<Rightarrow> reading \<Rightarrow> reading \<Rightarrow> Conn \<Rightarrow> (string \<times> profileJSON) option \<times> string" where
  "logProfileSummary mc c start rd rd' conn =
     (let head = ''[profile] === Connection Profile ==='' @ newline
            @ ''[profile] Duration: '' @ Duration_String (Duration_Round (int (rd_now rd) - start) Second) @ newline in
      case Conn_ConnectionStats (rd_stats rd) conn of
        None \<Rightarrow> (None, head @ ''[profile] Transport: TCP (transport-level stats not available)'' @ newline)
      | Some st \<Rightarrow>
          (case writeProfileJSON mc c start rd' conn of
             (file, out) \<Rightarrow>
               (file,
                head @ ''[profile] RTT: min='' @ formatDuration (cs_MinRTT st) @ '' smooth='' @ formatDuration (cs_SmoothedRTT st)
                @ '' latest='' @ formatDuration (cs_LatestRTT st) @ '' jitter='' @ formatDuration (cs_MeanDeviation st) @ newline
                @ ''[profile] Traffic: sent='' @ formatBytes (cs_BytesSent st) @ ''/'' @ Itoa (uint (cs_PacketsSent st)) @ ''pkts recv=''
                @ formatBytes (cs_BytesReceived st) @ ''/'' @ Itoa (uint (cs_PacketsReceived st)) @ ''pkts lost=''
                @ Itoa (uint (cs_PacketsLost st)) @ ''pkts'' @ newline @ out)))"

section \<open>Accuracy\<close>

lemma formatDuration_near:
  assumes "0 < d" and "d < 2 ^ 53"
  shows "\<exists>q. formatDuration d = tenths q @ ''ms'' \<and> \<bar>int q * 100000 - d\<bar> \<le> 50000"
proof -
  let ?x = "of_int d / 1000000 :: rat"
  have fl: "float64 (of_int d) = of_int d" "float64 1000000 = 1000000" using float64_int [of d] float64_int [of 1000000] assms by simp_all
  then have f: "formatDuration d = fmt_f1 (float64 ?x) @ ''ms''" using assms by (simp add: formatDuration_def float_div_def Millisecond_def)
  obtain q where q: "fmt_f1 (float64 ?x) = tenths q" "\<bar>of_nat q - 10 * float64 ?x\<bar> \<le> 1 / 2"
    using fmt_f1_near [of "float64 ?x"] float64_pos [of ?x] assms(1) by force
  have "(of_int d :: rat) < of_int (2 ^ 53)" using assms(2) by (simp only: of_int_less_iff)
  then have "\<bar>?x\<bar> / 2 ^ 53 < 1 / 1000000" using assms(1) by simp
  with float64_error [of ?x] have "\<bar>float64 ?x - ?x\<bar> < 1 / 1000000" by linarith
  with q(2) have "\<bar>of_nat q * 100000 - of_int d :: rat\<bar> < 50001" by (simp add: abs_if split: if_splits)
  then have "\<bar>of_int (int q * 100000 - d) :: rat\<bar> < of_int 50001" by simp
  then have "\<bar>int q * 100000 - d\<bar> < 50001" by (simp only: of_int_less_iff flip: of_int_abs)
  with f q(1) show ?thesis by auto
qed

lemma scaled_near:
  assumes "0 \<le> b" and "b < 2 ^ 53"
  shows "\<exists>q. fmt_f1 (float_div (float64 (of_int b)) (2 ^ k)) = tenths q \<and> 2 * \<bar>10 * b - int q * 2 ^ k\<bar> \<le> 2 ^ k"
proof -
  let ?y = "of_int b / 2 ^ k :: rat"
  have y: "float_div (float64 (of_int b)) (2 ^ k) = ?y" using float64_int [of b] float64_dyadic [of b k] assms by (simp add: float_div_def)
  obtain q where q: "fmt_f1 ?y = tenths q" "\<bar>of_nat q - 10 * ?y\<bar> \<le> 1 / 2" using fmt_f1_near [of ?y] assms(1) by auto
  have "(of_int (- 2 * (10 * b - int q * 2 ^ k)) :: rat) = (of_nat q - 10 * ?y) * (2 * 2 ^ k)" by (simp add: algebra_simps)
  then have "\<bar>of_int (- 2 * (10 * b - int q * 2 ^ k)) :: rat\<bar> = \<bar>of_nat q - 10 * ?y\<bar> * (2 * 2 ^ k)" by (simp only: abs_mult) simp
  also have "\<dots> \<le> 1 / 2 * (2 * 2 ^ k)" using q(2) by (intro mult_right_mono) simp_all
  also have "\<dots> = of_int (2 ^ k)" by simp
  finally have "\<bar>of_int (- 2 * (10 * b - int q * 2 ^ k)) :: rat\<bar> \<le> of_int (2 ^ k)" .
  then have "\<bar>- 2 * (10 * b - int q * 2 ^ k)\<bar> \<le> 2 ^ k" by (simp only: of_int_le_iff flip: of_int_abs)
  then have "2 * \<bar>10 * b - int q * 2 ^ k\<bar> \<le> 2 ^ k" by linarith
  with q(1) y show ?thesis by auto
qed

text \<open>The unit for a size: its name and the exponent of two.\<close>

definition sizeUnit :: "int \<Rightarrow> string \<times> nat" where
  "sizeUnit b = (if b \<ge> 2 ^ 30 then (''GB'', 30) else if b \<ge> 2 ^ 20 then (''MB'', 20) else (''KB'', 10))"

text \<open>C39: Figures are rounded correctly. For a duration under 104 days the number shown is a nearest tenth of a millisecond, and a size under
  8 PB is shown as a nearest tenth of the unit (a power of 1024), despite the intermediate rounding of floating-point
  arithmetic; smaller sizes are shown exactly.\<close>

theorem profile_figures_nearest:
  assumes "0 < d" and "d < 2 ^ 53" and "uint b < 2 ^ 53"
  shows "(\<exists>q. formatDuration d = tenths q @ ''ms'' \<and> \<bar>int q * 100000 - d\<bar> \<le> 50000)
    \<and> (if uint b < 1024 then formatBytes b = Itoa (uint b) @ ''B''
       else \<exists>q. formatBytes b = tenths q @ fst (sizeUnit (uint b))
         \<and> 2 * \<bar>10 * uint b - int q * 2 ^ snd (sizeUnit (uint b))\<bar> \<le> 2 ^ snd (sizeUnit (uint b)))"
proof (rule conjI [OF formatDuration_near [OF assms(1,2)]])
  show "if uint b < 1024 then formatBytes b = Itoa (uint b) @ ''B''
       else \<exists>q. formatBytes b = tenths q @ fst (sizeUnit (uint b))
         \<and> 2 * \<bar>10 * uint b - int q * 2 ^ snd (sizeUnit (uint b))\<bar> \<le> 2 ^ snd (sizeUnit (uint b))"
  proof (cases "uint b < 1024")
    case False
    then have "formatBytes b = fmt_f1 (float_div (float64 (of_int (uint b))) (2 ^ snd (sizeUnit (uint b)))) @ fst (sizeUnit (uint b))"
      by (simp add: formatBytes_def sizeUnit_def Let_def)
    with False scaled_near [OF _ assms(3), of "snd (sizeUnit (uint b))"] show ?thesis by auto
  qed (simp add: formatBytes_def)
qed

theorem profile_figures_nearest_witness:
  "\<exists>q. formatDuration 1234567 = tenths q @ ''ms'' \<and> \<bar>int q * 100000 - 1234567\<bar> \<le> 50000"
  using profile_figures_nearest [of 1234567 0] by simp

end
