(* ===== verification/Tls.thy ===== *)
theory Tls
  imports Goet_Prelude
begin

text \<open>
  The TLS settings of both ends: \<^verbatim>\<open>internal/transport/tls.go\<close>, with what \<^verbatim>\<open>crypto/tls\<close> does with them when a connection is set
  up: the choice of the version and of the application protocol, and whether the client checks the certificate. Key
  generation, random numbers and signing are arguments; time is in nanoseconds. That certificate generation may fail is the
  flag \<open>bi_cert\<close> of the listeners' environment.
\<close>

section \<open>Certificate and configurations\<close>

definition alpnProtocol :: string where "alpnProtocol = ''goet-v1''"

definition VersionTLS13 :: u16 where "VersionTLS13 = 0x0304"

datatype keyUsage = KeyUsageDigitalSignature

datatype extKeyUsage = ExtKeyUsageServerAuth

record x509_Certificate =
  SerialNumber :: int
  NotBefore :: int
  NotAfter :: int
  KeyUsage :: keyUsage
  ExtKeyUsage :: "extKeyUsage list"

record tls_Certificate =
  crt_Certificate :: "bytes list"
  crt_PrivateKey :: bytes

text \<open>\<open>ce_CreateCertificate tmpl parent key\<close> is the DER encoding of a certificate for \<open>tmpl\<close> signed by \<open>parent\<close> with \<open>key\<close>.\<close>

record crypto_env =
  ce_GenerateKey :: "bytes option"
  ce_Int :: "int \<Rightarrow> int option"
  ce_CreateCertificate :: "x509_Certificate \<Rightarrow> x509_Certificate \<Rightarrow> bytes \<Rightarrow> bytes option"

definition certTemplate :: "int \<Rightarrow> int \<Rightarrow> int \<Rightarrow> x509_Certificate" where
  "certTemplate serial now now' =
     \<lparr>SerialNumber = serial, NotBefore = now - 60 * 1000000000, NotAfter = now' + 24 * 3600 * 1000000000,
      KeyUsage = KeyUsageDigitalSignature, ExtKeyUsage = [ExtKeyUsageServerAuth]\<rparr>"

definition GenerateSelfSignedCert :: "crypto_env \<Rightarrow> int \<Rightarrow> int \<Rightarrow> tls_Certificate option" where
  "GenerateSelfSignedCert ce now now' =
     do { key \<leftarrow> ce_GenerateKey ce;
          serial \<leftarrow> ce_Int ce (2 ^ 128);
          let tmpl = certTemplate serial now now';
          certDER \<leftarrow> ce_CreateCertificate ce tmpl tmpl key;
          Some \<lparr>crt_Certificate = [certDER], crt_PrivateKey = key\<rparr> }"

record tls_Config =
  Certificates :: "tls_Certificate list"
  InsecureSkipVerify :: bool
  NextProtos :: "string list"
  MinVersion :: u16

definition ServerTLSConfig :: "tls_Certificate \<Rightarrow> tls_Config" where
  "ServerTLSConfig cert =
     \<lparr>Certificates = [cert], InsecureSkipVerify = False, NextProtos = [alpnProtocol], MinVersion = VersionTLS13\<rparr>"

definition ClientTLSConfig :: tls_Config where
  "ClientTLSConfig = \<lparr>Certificates = [], InsecureSkipVerify = True, NextProtos = [alpnProtocol], MinVersion = VersionTLS13\<rparr>"

section \<open>Setting up a connection\<close>

text \<open>
  The versions an end supports, newest first, and the newest one both support. The first protocol of the server that the client
  also offers is chosen; if both offer some and none is common, or over QUIC the client offers none, the connection is refused
  (\<open>None\<close>); over TCP a client that offers none is served without a protocol. \<open>verified\<close> is the outcome of checking the chain.
\<close>

definition supportedVersions :: "tls_Config \<Rightarrow> u16 list" where
  "supportedVersions cfg = filter (\<lambda>v. v \<ge> MinVersion cfg) [0x0304, 0x0303, 0x0302, 0x0301]"

definition mutualVersion :: "tls_Config \<Rightarrow> u16 list \<Rightarrow> u16 option" where
  "mutualVersion cfg peer = List.find (\<lambda>v. v \<in> set peer) (supportedVersions cfg)"

definition negotiateALPN :: "bool \<Rightarrow> string list \<Rightarrow> string list \<Rightarrow> string option" where
  "negotiateALPN quic serverProtos clientProtos =
     (if serverProtos = [] \<or> clientProtos = [] then (if quic \<and> serverProtos \<noteq> [] then None else Some [])
      else List.find (\<lambda>s. s \<in> set clientProtos) serverProtos)"

definition acceptsCertificate :: "tls_Config \<Rightarrow> bool \<Rightarrow> bool" where
  "acceptsCertificate cfg verified \<longleftrightarrow> InsecureSkipVerify cfg \<or> verified"

definition tls_setup :: "bool \<Rightarrow> tls_Config \<Rightarrow> tls_Config \<Rightarrow> bool \<Rightarrow> (u16 \<times> string) option" where
  "tls_setup quic client server verified =
     do { v \<leftarrow> mutualVersion server (supportedVersions client);
          p \<leftarrow> negotiateALPN quic (NextProtos server) (NextProtos client);
          if acceptsCertificate client verified then Some (v, p) else None }"

section \<open>Facts\<close>

text \<open>The two ends always agree, also when the session has outlived its certificate.\<close>

lemma tls_agree: "tls_setup quic ClientTLSConfig (ServerTLSConfig cert) verified = Some (VersionTLS13, alpnProtocol)"
  by (simp add: tls_setup_def mutualVersion_def supportedVersions_def negotiateALPN_def acceptsCertificate_def ClientTLSConfig_def
      ServerTLSConfig_def VersionTLS13_def)

text \<open>Whoever connects to a session does so with TLS 1.3; over QUIC it has to speak the program's protocol.\<close>

lemma tls_server:
  assumes "tls_setup quic client (ServerTLSConfig cert) verified = Some (v, p)"
  shows "v = VersionTLS13" and "quic \<Longrightarrow> p = alpnProtocol"
  using assms
  by (auto simp: tls_setup_def mutualVersion_def negotiateALPN_def ServerTLSConfig_def VersionTLS13_def supportedVersions_def
      split: bind_splits if_splits)

lemma cert_self_signed:
  assumes "GenerateSelfSignedCert ce now now' = Some cert"
  obtains serial der where "ce_Int ce (2 ^ 128) = Some serial" and "crt_Certificate cert = [der]"
    and "ce_CreateCertificate ce (certTemplate serial now now') (certTemplate serial now now') (crt_PrivateKey cert) = Some der"
  using assms by (auto simp: GenerateSelfSignedCert_def Let_def split: bind_splits)

end
