(* ===== verification/Auth_Vectors.thy ===== *)
theory Auth_Vectors
  imports Auth
begin

text \<open>
  A published test vector for the hash function behind the authentication tokens, evaluated by the
  kernel; it stands apart because the evaluation takes most of a minute.
\<close>

text \<open>The test vector of FIPS 180-4 for the message \<^verbatim>\<open>abc\<close>.\<close>

lemma sha256_abc: "sha256 [97, 98, 99] =
    [186, 120, 22, 191, 143, 1, 207, 234, 65, 65, 64, 222, 93, 174, 34, 35,
     176, 3, 97, 163, 150, 23, 122, 156, 180, 16, 255, 97, 242, 0, 21, 173]"
  by code_simp

end
