(* ===== verification/Spec2Isabelle.thy ===== *)
theory Spec2Isabelle
  imports System Client_Tty Command Profile Tls Auth_Vectors
begin

text \<open>
  goet is a reconnectable remote terminal. A session owns a shell on a pseudo-terminal on the remote host; a client
  relays the user's terminal to it over an authenticated connection (QUIC, or TCP with TLS) and reconnects when the
  connection fails. Both ends number the batches of data they send and keep the latest in a catchup buffer; on a new
  connection each tells the other the last number it received, and the other resends what came after.

  \<^bold>\<open>Theories and the code they model.\<close>
  \<^item> \<open>Goet_Prelude\<close>: types, Go slices and remainders, collections of facts.
  \<^item> \<open>Protocol\<close> (\<^verbatim>\<open>internal/protocol\<close>): messages, frames, \<open>WriteMessage\<close>, \<open>ReadMessage\<close>, \<open>DecodePayload\<close>. A reader
    is a list of segments and a final error; \<open>frame\<close> is the reference encoding.
  \<^item> \<open>Catchup\<close> (\<^verbatim>\<open>internal/catchup\<close>): the ring buffer with its indices; \<open>blog\<close> abstracts it to the list of entries, and
    the locale of catchup buffers states what the senders rely on.
  \<^item> \<open>Coalesce\<close> (\<^verbatim>\<open>internal/coalesce\<close>): the write coalescer and its timer, time in nanoseconds.
  \<^item> \<open>Escape\<close> (\<^verbatim>\<open>internal/client/escape.go\<close>): the escape sequences, against the reference machine \<open>escRun\<close>.
  \<^item> \<open>Auth\<close>, \<open>Auth_Vectors\<close> (\<^verbatim>\<open>internal/auth\<close>): the token, over a model of HMAC-SHA256 checked on a published vector.
  \<^item> \<open>Transport\<close> (\<^verbatim>\<open>streams.go\<close>, \<^verbatim>\<open>tcp.go\<close>, both halves of the handshake in \<^verbatim>\<open>session_listener.go\<close>, \<^verbatim>\<open>tcp_listener.go\<close>,
    \<^verbatim>\<open>client_dialer.go\<close>, \<^verbatim>\<open>tcp_dialer.go\<close>): a stream is a reader and a writer with bounded room; \<open>Conn\<close> is either kind of
    connection; the TCP demultiplexer is a step relation. The locale \<open>conn_log\<close> is what the senders rely on.
  \<^item> \<open>Dial\<close> (\<^verbatim>\<open>client_dialer.go\<close>, \<^verbatim>\<open>tcp_dialer.go\<close>, \<^verbatim>\<open>conn.go\<close>): dialing in both modes and what a failed dial closes.
  \<^item> \<open>Listener\<close> (\<^verbatim>\<open>session_listener.go\<close>, \<^verbatim>\<open>tcp_listener.go\<close>, \<^verbatim>\<open>dual_listener.go\<close>): binding, accepting, and the dual listener with
    its two accept loops, queue and \<open>Close\<close> as the step relation \<open>dual_step\<close>.
  \<^item> \<open>Tls\<close> (\<^verbatim>\<open>tls.go\<close>): the certificate and the TLS configurations, and what the TLS library chooses given them.
  \<^item> \<open>Sender\<close>: what session and client share as senders. \<open>sender_inv\<close> ties buffer and counter to the batches sent so
    far; \<open>parts\<close> says which contiguous part of them each connection carries.
  \<^item> \<open>Receiver\<close>: what they share as receivers. The locale \<open>conn_inbox\<close> is what a receiver relies on of a connection; \<open>feed\<close> ties what
    arrives on it to what waits in the channels; \<open>recv_core\<close> ties the terminal and the last number to the deliveries.
  \<^item> \<open>Pty\<close> (\<^verbatim>\<open>internal/session/pty.go\<close>): the TERM check, the shell's command and environment, the window size.
  \<^item> \<open>Session\<close>, \<open>Session_Run\<close>, \<open>Session_Recv\<close> (\<^verbatim>\<open>internal/session/session.go\<close>): the handlers as functions on the \<open>Session\<close> record, whose
    connections live in a store because reader goroutines keep old ones; \<open>Run\<close> with its goroutines as \<open>run_step\<close>, one rule
    per select case or goroutine action. \<open>Session_Recv\<close> holds the invariant of the receiving side.
  \<^item> \<open>Client\<close>, \<open>Client_Run\<close>, \<open>Client_Send\<close> (\<^verbatim>\<open>internal/client/client.go\<close>): the same for the client, with \<open>client_step\<close>; the receiving
    and the sending side have an invariant each.
  \<^item> \<open>Client_Tty\<close>: when the user's terminal is in raw mode.
  \<^item> \<open>System\<close>: session and client together.
  \<^item> \<open>Go_Strings\<close>, \<open>Flags\<close>, \<open>Float64\<close>: what the program uses of the standard library: \<^verbatim>\<open>strings\<close>, \<^verbatim>\<open>strconv\<close>, \<^verbatim>\<open>encoding/hex\<close>; the \<^verbatim>\<open>flag\<close>
    package; \<^verbatim>\<open>float64\<close> as rationals rounded to 53 bits.
  \<^item> \<open>Bootstrap\<close> (\<^verbatim>\<open>ssh.go\<close>, \<^verbatim>\<open>install.go\<close>): starting the remote session over ssh, remote installation.
  \<^item> \<open>Command\<close> (\<^verbatim>\<open>cmd/goet/main.go\<close>, \<^verbatim>\<open>internal/version\<close>): flags and dispatch, the commands, and what they start: \<open>Client_start\<close>,
    \<open>ListenDual\<close> and \<open>Run_start\<close> of the theories above.
  \<^item> \<open>Profile\<close> (\<^verbatim>\<open>internal/client/profile.go\<close>): the text of the client's profile notices.

  \<^bold>\<open>How state and effects are modelled.\<close> Go structs are records; errors are sums or options; \<open>None\<close> is a panic where an
  operation can panic, and blocking where a channel read can block (the types say which). Machine words keep their width:
  sequence numbers are 64-bit words, and statements about their order assume fewer than $2^{64}$ bytes of data, under which
  there are fewer than $2^{64}$ batches. Channels are lists with the capacity as a guard. The step relations allow
  every interleaving of goroutines and every choice of a ready select case. A decoder panic in a reader goroutine ends the
  process and is not a step. History variables (the shell's output, the bytes typed, what arrived and was delivered per
  connection, what was in which queue) are updated by the steps and read by none.

  \<^bold>\<open>What is shown.\<close> Frames round-trip under every segmentation, decoding yields only messages the format can carry, and it
  panics on exactly two length values. The ring buffer refines a bounded list; a replay is a gap-free suffix of the history,
  complete when it fits. The coalescer and the escape processor neither lose, invent nor reorder bytes. Only a peer that
  proves the passkey for its own TLS session is delivered. In every reachable state each connection of the session carries a
  contiguous run of its numbered output, from where its client left off unless the buffer was exceeded; the same holds of the
  client's input; what the client shows and what the session's terminal is given is what each received, in order. Together: the
  user sees an in-order part of the shell's output and the shell gets an in-order part of what was typed, each batch at most
  once, and without gaps while replays fit the buffer. No select case panics. The terminal is in raw mode only
  while a connection is served. The
  accept loops end after \<open>Close\<close>, stream readers end with their stream, a listening client can always catch up, the
  command line the bootstrap runs is parsed as intended and gives both ends the same port, passkey and buffer size, the version
  check reads what the version command prints, nothing is left behind, profile figures are rounded correctly. The theorems that show defects are named in the same way:
  reconnecting over TCP with unreceived input never succeeds; a crafted length ends the session process before
  authentication; the last output of a shell can be lost; a connection can be queued after \<open>Close\<close>; a current goet outside the
  remote PATH is started under the wrong name; the session's own \<open>--replay-size\<close> is consumed before it is read; without a log
  file the log goes nowhere.

  \<^bold>\<open>Interfaces to code outside the repository\<close> are arguments: TLS and QUIC (whether a handshake succeeds, exporter material,
  streams), the operating system (ports, processes, the terminal, files), ssh, HTTP and the random source. The end-to-end theorems
  assume of the network that a stream delivers a prefix of what was written to it and that the connections of one client
  are accepted in the order it made them.

  \<^bold>\<open>Bounds.\<close> No definition needs fuel: the loops are structural or have a termination proof, and what may run forever is a step
  relation.

  \<^bold>\<open>Not modelled.\<close> Logging and usage texts, the JSON text of the profile (the record is modelled), signal handling beyond the
  cancelled context, and the wall-clock length of sleeps and timeouts, which appear as steps that may happen.
\<close>

end
